theory Spec2Isabelle
  imports Main "HOL-Library.AList" "HOL-Library.Sublist"
begin

section \<open>The task sample: \<open>tests/fixtures/sample_code/python_sample.py\<close>\<close>

text \<open>
  The dataclass \<open>Task\<close>. The field \<open>id\<close> is called \<open>task_id\<close> here (\<open>id\<close> is the
  identity function of HOL). \<open>created_at\<close> is a \<open>datetime\<close> in the source; only its order is
  ever used, so it is a timestamp. \<open>metadata\<close> is a \<open>Dict[str, Any]\<close>: an association list
  over any value type.
\<close>

record 'a Task =
  task_id :: string
  title :: string
  completed :: bool
  created_at :: int
  tags :: "string list"
  metadata :: "(string \<times> 'a) list"

text \<open>\<open>Task.mark_completed\<close>: \<open>self.completed = True\<close>.\<close>

definition mark_completed :: "'a Task \<Rightarrow> 'a Task" where
  "mark_completed t = t\<lparr>completed := True\<rparr>"

text \<open>\<open>Task.add_tag\<close>: \<open>if tag not in self.tags: self.tags.append(tag)\<close>.\<close>

definition add_tag :: "'a Task \<Rightarrow> string \<Rightarrow> 'a Task" where
  "add_tag t tag = (if tag \<notin> set (tags t) then t\<lparr>tags := tags t @ [tag]\<rparr> else t)"

text \<open>\<open>Task.remove_tag\<close>: \<open>list.remove\<close> deletes the first occurrence.\<close>

definition remove_tag :: "'a Task \<Rightarrow> string \<Rightarrow> 'a Task" where
  "remove_tag t tag = (if tag \<in> set (tags t) then t\<lparr>tags := remove1 tag (tags t)\<rparr> else t)"

text \<open>
  \<open>TaskManager\<close>: \<open>self.tasks\<close> is a \<open>Dict[str, Task]\<close>. A Python dict keeps its items in
  insertion order and holds each key once; it is the list of its items, and
  \<open>wf_manager\<close> says that no key occurs twice.
\<close>

record 'a TaskManager =
  tasks :: "(string \<times> 'a Task) list"

definition wf_manager :: "'a TaskManager \<Rightarrow> bool" where
  "wf_manager m = distinct (map fst (tasks m))"

text \<open>\<open>TaskManager.__init__\<close>: \<open>self.tasks = {}\<close>.\<close>

definition init_manager :: "'a TaskManager" where
  "init_manager = \<lparr>tasks = []\<rparr>"

text \<open>\<open>add_task\<close>: \<open>self.tasks[task.id] = task\<close> (replaces in place, or appends a new key).\<close>

definition add_task :: "'a TaskManager \<Rightarrow> 'a Task \<Rightarrow> 'a TaskManager" where
  "add_task m t = m\<lparr>tasks := AList.update (task_id t) t (tasks m)\<rparr>"

text \<open>\<open>get_task\<close>: \<open>self.tasks.get(task_id)\<close>.\<close>

definition get_task :: "'a TaskManager \<Rightarrow> string \<Rightarrow> 'a Task option" where
  "get_task m tid = map_of (tasks m) tid"

text \<open>
  \<open>remove_task\<close>: the returned flag and the manager after the call.
  \<^verbatim>\<open>
  if task_id in self.tasks:
      del self.tasks[task_id]
      return True
  return False
  \<close>
\<close>

definition remove_task :: "'a TaskManager \<Rightarrow> string \<Rightarrow> bool \<times> 'a TaskManager" where
  "remove_task m tid =
     (if tid \<in> fst ` set (tasks m)
      then (True, m\<lparr>tasks := AList.delete tid (tasks m)\<rparr>)
      else (False, m))"

text \<open>
  \<open>get_stats\<close>: Python integers are unbounded, so the counts are of type \<open>int\<close> and
  \<open>pending = total - completed\<close> is the subtraction of the source. The returned dict is the
  list of its three items.
\<close>

definition get_stats :: "'a TaskManager \<Rightarrow> (string \<times> int) list" where
  "get_stats m =
     (let total = int (length (tasks m));
          completed_n = (\<Sum>task \<leftarrow> map snd (tasks m). if completed task then 1 else 0);
          pending = total - completed_n
      in [(''total'', total), (''completed'', completed_n), (''pending'', pending)])"

section \<open>The configuration checker: \<open>verify_yaml_config.py\<close>\<close>

subsection \<open>Parsed documents and the Python operations the checker applies to them\<close>

text \<open>
  What \<open>yaml.safe_load\<close> returns: \<open>None\<close>, a \<open>bool\<close>, an \<open>int\<close>, a \<open>str\<close>, a \<open>list\<close> or a
  \<open>dict\<close> (the list of its items, in order). Floats, timestamps, binary values and sets, which
  the loader can also produce, are not part of this document type.
\<close>

datatype yaml =
    YNone
  | YBool bool
  | YInt int
  | YStr string
  | YList "yaml list"
  | YDict "(yaml \<times> yaml) list"

datatype error = TypeError | KeyError | YAMLError | OSError

text \<open>\<open>bool(v)\<close>, as \<open>not v\<close> computes it.\<close>

fun py_truthy :: "yaml \<Rightarrow> bool" where
  "py_truthy YNone = False"
| "py_truthy (YBool b) = b"
| "py_truthy (YInt i) = (i \<noteq> 0)"
| "py_truthy (YStr s) = (s \<noteq> [])"
| "py_truthy (YList xs) = (xs \<noteq> [])"
| "py_truthy (YDict d) = (d \<noteq> [])"

text \<open>
  \<open>key in v\<close> for a string \<open>key\<close>: key membership in a dict, element membership in a list,
  substring test in a string; \<open>TypeError\<close> ("argument of type ... is not iterable") otherwise.
\<close>

fun py_contains :: "string \<Rightarrow> yaml \<Rightarrow> error + bool" where
  "py_contains k (YDict d) = Inr (map_of d (YStr k) \<noteq> None)"
| "py_contains k (YList xs) = Inr (YStr k \<in> set xs)"
| "py_contains k (YStr s) = Inr (sublist k s)"
| "py_contains k YNone = Inl TypeError"
| "py_contains k (YBool b) = Inl TypeError"
| "py_contains k (YInt i) = Inl TypeError"

text \<open>
  \<open>v[key]\<close> for a string \<open>key\<close>: the value of a dict (\<open>KeyError\<close> when the key is absent);
  \<open>TypeError\<close> on a list or a string (indices must be integers) and on a scalar (not
  subscriptable).
\<close>

fun py_getitem :: "yaml \<Rightarrow> string \<Rightarrow> error + yaml" where
  "py_getitem (YDict d) k = (case map_of d (YStr k) of Some v \<Rightarrow> Inr v | None \<Rightarrow> Inl KeyError)"
| "py_getitem (YList xs) k = Inl TypeError"
| "py_getitem (YStr s) k = Inl TypeError"
| "py_getitem YNone k = Inl TypeError"
| "py_getitem (YBool b) k = Inl TypeError"
| "py_getitem (YInt i) k = Inl TypeError"

text \<open>\<open>len(v)\<close>.\<close>

fun py_len :: "yaml \<Rightarrow> error + nat" where
  "py_len (YStr s) = Inr (length s)"
| "py_len (YList xs) = Inr (length xs)"
| "py_len (YDict d) = Inr (length d)"
| "py_len YNone = Inl TypeError"
| "py_len (YBool b) = Inl TypeError"
| "py_len (YInt i) = Inl TypeError"

text \<open>
  The values a \<open>for x in v\<close> loop visits: the elements of a list, the keys of a dict, the
  one-character strings of a string.
\<close>

fun py_iter :: "yaml \<Rightarrow> error + yaml list" where
  "py_iter (YList xs) = Inr xs"
| "py_iter (YDict d) = Inr (map fst d)"
| "py_iter (YStr s) = Inr (map (\<lambda>c. YStr [c]) s)"
| "py_iter YNone = Inl TypeError"
| "py_iter (YBool b) = Inl TypeError"
| "py_iter (YInt i) = Inl TypeError"

text \<open>
  \<open>v[:n]\<close>: a prefix of a string or of a list. A dict takes the slice for a key, which is
  unhashable (\<open>TypeError\<close>; from Python 3.12 on the slice is hashable and the lookup fails with
  \<open>KeyError\<close> instead); a scalar is not subscriptable.
\<close>

fun py_slice :: "nat \<Rightarrow> yaml \<Rightarrow> error + yaml" where
  "py_slice n (YStr s) = Inr (YStr (take n s))"
| "py_slice n (YList xs) = Inr (YList (take n xs))"
| "py_slice n (YDict d) = Inl TypeError"
| "py_slice n YNone = Inl TypeError"
| "py_slice n (YBool b) = Inl TypeError"
| "py_slice n (YInt i) = Inl TypeError"

text \<open>
  \<open>len(str(v))\<close>. \<open>str\<close> of a string is the string. The checker never looks at the text that
  \<open>str\<close> gives for any other value, only at its length, which is the parameter \<open>w\<close>.
\<close>

definition str_len :: "(yaml \<Rightarrow> nat) \<Rightarrow> yaml \<Rightarrow> nat" where
  "str_len w v = (case v of YStr s \<Rightarrow> length s | _ \<Rightarrow> w v)"

subsection \<open>Output lines and control flow\<close>

text \<open>
  One constructor for each \<open>print\<close> call of the script, carrying the values the call
  interpolates (the decoration and the exact layout of the text are left out).
\<close>

datatype line =
    Rule
  | Verifying string
  | Missing_required string
  | Field_ok string yaml bool
  | Invalid_mode yaml "string list"
  | Mode_ok yaml
  | Invalid_intelligence yaml "string list"
  | Intelligence_ok yaml
  | Tools_count nat
  | Tool_missing_name
  | Invalid_permission yaml yaml
  | Tool_ok yaml yaml "nat option"
  | Parameters_count nat
  | Param_missing string
  | Param_ok yaml yaml
  | Items_count string nat
  | Entries_count string nat
  | Config_valid
  | Creating_dir
  | No_yaml_files
  | Found nat
  | All_valid
  | Note string
  | Some_errors

text \<open>
  How a piece of code ends: it returns a value, or an exception leaves it. A \<open>run\<close> is the
  lines printed and the way the code ended, \<open>None\<close> when control falls through to the next
  statement.
\<close>

datatype 'a outcome = Returned 'a | Raised error

type_synonym 'a run = "line list \<times> 'a outcome option"

definition emit :: "line list \<Rightarrow> 'a run" where
  "emit ls = (ls, None)"

definition ret :: "line list \<Rightarrow> 'a \<Rightarrow> 'a run" where
  "ret ls b = (ls, Some (Returned b))"

definition andthen :: "'a run \<Rightarrow> 'a run \<Rightarrow> 'a run" where
  "andthen p q = (case snd p of None \<Rightarrow> (fst p @ fst q, snd q) | Some r \<Rightarrow> p)"

definition on_value :: "error + 'b \<Rightarrow> ('b \<Rightarrow> 'a run) \<Rightarrow> 'a run" where
  "on_value x f = (case x of Inl e \<Rightarrow> ([], Some (Raised e)) | Inr v \<Rightarrow> f v)"

subsection \<open>\<open>verify_yaml_config\<close>\<close>

text \<open>
  One round of the loop over the required fields.
  \<^verbatim>\<open>
  if field not in config or not config[field]:
      print(f"Missing required field: {field}")
      return False
  else:
      print(f"{field}: {config[field][:50]}..." if len(str(config[field])) > 50
            else f"{field}: {config[field]}")
  \<close>
\<close>

definition check_field :: "(yaml \<Rightarrow> nat) \<Rightarrow> yaml \<Rightarrow> string \<Rightarrow> bool run" where
  "check_field w config field =
     on_value (py_contains field config) (\<lambda>present.
       if \<not> present then ret [Missing_required field] False
       else on_value (py_getitem config field) (\<lambda>v.
         if \<not> py_truthy v then ret [Missing_required field] False
         else if str_len w v > 50
           then on_value (py_slice 50 v) (\<lambda>shown. emit [Field_ok field shown True])
           else emit [Field_ok field v False]))"

fun check_required :: "(yaml \<Rightarrow> nat) \<Rightarrow> yaml \<Rightarrow> string list \<Rightarrow> bool run" where
  "check_required w config [] = emit []"
| "check_required w config (field # others) =
     andthen (check_field w config field) (check_required w config others)"

definition required :: "string list" where
  "required = [''name'', ''description'', ''prompt'']"

definition valid_modes :: "string list" where
  "valid_modes = [''plan'', ''build'', ''review'']"

definition valid_levels :: "string list" where
  "valid_levels = [''light'', ''medium'', ''hard'']"

definition valid_permissions :: "string list" where
  "valid_permissions = [''allow'', ''deny'', ''restricted'']"

text \<open>
  \<^verbatim>\<open>
  if 'mode_override' in config:
      valid_modes = ['plan', 'build', 'review']
      if config['mode_override'] not in valid_modes:
          print(f"Invalid mode_override: {config['mode_override']} (must be one of {valid_modes})")
          return False
      print(f"mode_override: {config['mode_override']}")
  \<close>
\<close>

definition check_mode_override :: "yaml \<Rightarrow> bool run" where
  "check_mode_override config =
     on_value (py_contains ''mode_override'' config) (\<lambda>present.
       if present
       then on_value (py_getitem config ''mode_override'') (\<lambda>v.
         if v \<notin> set (map YStr valid_modes) then ret [Invalid_mode v valid_modes] False
         else emit [Mode_ok v])
       else emit [])"

definition check_intelligence :: "yaml \<Rightarrow> bool run" where
  "check_intelligence config =
     on_value (py_contains ''intelligence'' config) (\<lambda>present.
       if present
       then on_value (py_getitem config ''intelligence'') (\<lambda>v.
         if v \<notin> set (map YStr valid_levels) then ret [Invalid_intelligence v valid_levels] False
         else emit [Intelligence_ok v])
       else emit [])"

text \<open>
  The body of the loop over the tools.
  \<^verbatim>\<open>
  if 'name' not in tool:
      print("Tool missing 'name' field")
      return False
  if 'permission' in tool:
      if tool['permission'] not in ['allow', 'deny', 'restricted']:
          print(f"Invalid permission for {tool['name']}: {tool['permission']}")
          return False
      restrictions = ""
      if tool['permission'] == 'restricted' and 'restrictions' in tool:
          restrictions = f" with {len(tool['restrictions'])} restrictions"
      print(f"  - {tool['name']}: {tool['permission']}{restrictions}")
  \<close>
\<close>

definition check_tool :: "yaml \<Rightarrow> bool run" where
  "check_tool tool =
     on_value (py_contains ''name'' tool) (\<lambda>has_name.
       if \<not> has_name then ret [Tool_missing_name] False
       else on_value (py_contains ''permission'' tool) (\<lambda>has_permission.
         if has_permission
         then on_value (py_getitem tool ''permission'') (\<lambda>permission.
           if permission \<notin> set (map YStr valid_permissions)
           then on_value (py_getitem tool ''name'') (\<lambda>nm.
                  ret [Invalid_permission nm permission] False)
           else if permission = YStr ''restricted''
             then on_value (py_contains ''restrictions'' tool) (\<lambda>has_restrictions.
               if has_restrictions
               then on_value (py_getitem tool ''restrictions'') (\<lambda>rs.
                      on_value (py_len rs) (\<lambda>n.
                        on_value (py_getitem tool ''name'') (\<lambda>nm.
                          emit [Tool_ok nm permission (Some n)])))
               else on_value (py_getitem tool ''name'') (\<lambda>nm.
                      emit [Tool_ok nm permission None]))
             else on_value (py_getitem tool ''name'') (\<lambda>nm.
                    emit [Tool_ok nm permission None]))
         else emit []))"

fun check_tool_list :: "yaml list \<Rightarrow> bool run" where
  "check_tool_list [] = emit []"
| "check_tool_list (tool # rest) = andthen (check_tool tool) (check_tool_list rest)"

text \<open>
  \<^verbatim>\<open>
  if 'tools' in config:
      print(f"tools: {len(config['tools'])} configured")
      for tool in config['tools']:
          ...
  \<close>
\<close>

definition check_tools :: "yaml \<Rightarrow> bool run" where
  "check_tools config =
     on_value (py_contains ''tools'' config) (\<lambda>present.
       if present
       then on_value (py_getitem config ''tools'') (\<lambda>ts.
         on_value (py_len ts) (\<lambda>n.
           andthen (emit [Tools_count n]) (on_value (py_iter ts) check_tool_list)))
       else emit [])"

text \<open>
  The body of the loop over the parameters.
  \<^verbatim>\<open>
  required_param_fields = ['name', 'description']
  for field in required_param_fields:
      if field not in param:
          print(f"Parameter missing '{field}' field")
          return False
  print(f"  - {param['name']}: {param['description'][:40]}...")
  \<close>
\<close>

fun check_param_fields :: "yaml \<Rightarrow> string list \<Rightarrow> bool run" where
  "check_param_fields param [] = emit []"
| "check_param_fields param (field # others) =
     andthen
       (on_value (py_contains field param) (\<lambda>present.
          if \<not> present then ret [Param_missing field] False else emit []))
       (check_param_fields param others)"

definition check_param :: "yaml \<Rightarrow> bool run" where
  "check_param param =
     andthen (check_param_fields param [''name'', ''description''])
       (on_value (py_getitem param ''name'') (\<lambda>nm.
          on_value (py_getitem param ''description'') (\<lambda>d.
            on_value (py_slice 40 d) (\<lambda>shown. emit [Param_ok nm shown]))))"

fun check_param_list :: "yaml list \<Rightarrow> bool run" where
  "check_param_list [] = emit []"
| "check_param_list (param # rest) = andthen (check_param param) (check_param_list rest)"

definition check_parameters :: "yaml \<Rightarrow> bool run" where
  "check_parameters config =
     on_value (py_contains ''parameters'' config) (\<lambda>present.
       if present
       then on_value (py_getitem config ''parameters'') (\<lambda>ps.
         on_value (py_len ps) (\<lambda>n.
           andthen (emit [Parameters_count n]) (on_value (py_iter ps) check_param_list)))
       else emit [])"

text \<open>
  \<^verbatim>\<open>
  for field in ['tags', 'file_patterns', 'metadata']:
      if field in config:
          if isinstance(config[field], list):
              print(f"{field}: {len(config[field])} items")
          elif isinstance(config[field], dict):
              print(f"{field}: {len(config[field])} entries")
  \<close>
\<close>

fun check_other_fields :: "yaml \<Rightarrow> string list \<Rightarrow> bool run" where
  "check_other_fields config [] = emit []"
| "check_other_fields config (field # others) =
     andthen
       (on_value (py_contains field config) (\<lambda>present.
          if present
          then on_value (py_getitem config field) (\<lambda>v.
            case v of
              YList xs \<Rightarrow> emit [Items_count field (length xs)]
            | YDict d \<Rightarrow> emit [Entries_count field (length d)]
            | _ \<Rightarrow> emit [])
          else emit []))
       (check_other_fields config others)"

text \<open>
  The checks of \<open>verify_yaml_config\<close> on the loaded document, from the required fields to
  \<open>return True\<close>.
\<close>

definition validate :: "(yaml \<Rightarrow> nat) \<Rightarrow> yaml \<Rightarrow> bool run" where
  "validate w config =
     andthen (check_required w config required)
    (andthen (check_mode_override config)
    (andthen (check_intelligence config)
    (andthen (check_tools config)
    (andthen (check_parameters config)
    (andthen (check_other_fields config [''tags'', ''file_patterns'', ''metadata''])
             (ret [Config_valid] True))))))"

text \<open>
  A directory entry is a name and what opening and loading the file gives: \<open>open\<close> fails
  (\<open>OSError\<close>), \<open>yaml.safe_load\<close> fails (\<open>yaml.YAMLError\<close>), or a document is loaded. The
  script catches neither exception.
\<close>

datatype source = Unreadable | Malformed | Loads yaml

definition verify_yaml_config :: "(yaml \<Rightarrow> nat) \<Rightarrow> string \<times> source \<Rightarrow> bool run" where
  "verify_yaml_config w file =
     andthen (emit [Rule, Verifying (fst file), Rule])
       (case snd file of
          Unreadable \<Rightarrow> ([], Some (Raised OSError))
        | Malformed \<Rightarrow> ([], Some (Raised YAMLError))
        | Loads config \<Rightarrow> validate w config)"

subsection \<open>\<open>main\<close>\<close>

text \<open>
  \<open>list(example_dir.glob("*.yaml")) + list(example_dir.glob("*.yml"))\<close>: the entries whose
  name ends in \<open>.yaml\<close>, then those whose name ends in \<open>.yml\<close>, each group in directory order.
\<close>

definition yaml_files :: "(string \<times> source) list \<Rightarrow> (string \<times> source) list" where
  "yaml_files entries =
     filter (\<lambda>f. suffix ''.yaml'' (fst f)) entries @ filter (\<lambda>f. suffix ''.yml'' (fst f)) entries"

text \<open>
  The loop of \<open>main\<close>, with the flag \<open>all_valid\<close> as accumulator. An exception that leaves
  \<open>verify_yaml_config\<close> leaves the loop too.
  \<^verbatim>\<open>
  for yaml_file in yaml_files:
      if not verify_yaml_config(yaml_file):
          all_valid = False
  \<close>
\<close>

fun scan :: "(yaml \<Rightarrow> nat) \<Rightarrow> (string \<times> source) list \<Rightarrow> bool \<Rightarrow> line list \<times> (error + bool)" where
  "scan w [] all_valid = ([], Inr all_valid)"
| "scan w (file # files) all_valid =
     (case snd (verify_yaml_config w file) of
        Some (Raised e) \<Rightarrow> (fst (verify_yaml_config w file), Inl e)
      | Some (Returned b) \<Rightarrow>
          (case scan w files (if \<not> b then False else all_valid) of
             (ls, r) \<Rightarrow> (fst (verify_yaml_config w file) @ ls, r))
      | None \<Rightarrow>
          (case scan w files False of
             (ls, r) \<Rightarrow> (fst (verify_yaml_config w file) @ ls, r)))"

text \<open>
  \<open>main\<close> on the directory \<open>example-agents\<close>: \<open>None\<close> when it does not exist (it is then
  created, empty), otherwise its entries.
\<close>

definition main :: "(yaml \<Rightarrow> nat) \<Rightarrow> (string \<times> source) list option \<Rightarrow> unit run" where
  "main w example_dir =
     andthen (case example_dir of None \<Rightarrow> emit [Creating_dir] | Some entries \<Rightarrow> emit [])
       (let files = yaml_files (case example_dir of None \<Rightarrow> [] | Some entries \<Rightarrow> entries)
        in if files = [] then ret [No_yaml_files] ()
           else andthen (emit [Found (length files)])
             (case scan w files True of
                (ls, Inl e) \<Rightarrow> (ls, Some (Raised e))
              | (ls, Inr all_valid) \<Rightarrow>
                  andthen (emit (ls @ [Rule]))
                    (if all_valid
                     then emit [All_valid,
                       Note ''The YAML loader implementation will properly parse these configs.'',
                       Note ''The Rust implementation supports:'',
                       Note ''Loading from ~/.agcodex/agents/ (global)'',
                       Note ''Loading from ./.agcodex/agents/ (project)'',
                       Note ''Project configs override global configs'',
                       Note ''Both .yaml and .yml extensions'',
                       Note ''Mixed TOML and YAML loading'']
                     else emit [Some_errors])))"

text \<open>The lines that report a violation (the ones the script prints before \<open>return False\<close>).\<close>

fun is_violation :: "line \<Rightarrow> bool" where
  "is_violation (Missing_required f) = True"
| "is_violation (Invalid_mode v a) = True"
| "is_violation (Invalid_intelligence v a) = True"
| "is_violation Tool_missing_name = True"
| "is_violation (Invalid_permission n p) = True"
| "is_violation (Param_missing f) = True"
| "is_violation _ = False"

definition violations :: "line list \<Rightarrow> line list" where
  "violations ls = filter is_violation ls"

text \<open>
  \<open>one_violation\<close>: a run reports a violation exactly when it returns \<open>False\<close>, and then
  reports a single one, as the last line it prints. \<open>never_true\<close>: a run does not return
  \<open>True\<close> (each check either falls through, returns \<open>False\<close> or raises).
\<close>

definition one_violation :: "bool run \<Rightarrow> bool" where
  "one_violation r =
     (violations (fst r) = (if snd r = Some (Returned False) then [last (fst r)] else []))"

definition never_true :: "bool run \<Rightarrow> bool" where
  "never_true r = (snd r \<noteq> Some (Returned True))"

text \<open>The statement of \<open>verify_yaml_config\<close> that prints a line (\<open>Driver\<close>: a line of \<open>main\<close>).\<close>

datatype stage =
  Header | Required | Mode | Intelligence | Tools | Parameters | Others | Final | Driver

fun stage_of :: "line \<Rightarrow> stage" where
  "stage_of Rule = Header"
| "stage_of (Verifying p) = Header"
| "stage_of (Missing_required f) = Required"
| "stage_of (Field_ok f v t) = Required"
| "stage_of (Invalid_mode v a) = Mode"
| "stage_of (Mode_ok v) = Mode"
| "stage_of (Invalid_intelligence v a) = Intelligence"
| "stage_of (Intelligence_ok v) = Intelligence"
| "stage_of (Tools_count n) = Tools"
| "stage_of Tool_missing_name = Tools"
| "stage_of (Invalid_permission n p) = Tools"
| "stage_of (Tool_ok n p r) = Tools"
| "stage_of (Parameters_count n) = Parameters"
| "stage_of (Param_missing f) = Parameters"
| "stage_of (Param_ok n d) = Parameters"
| "stage_of (Items_count f n) = Others"
| "stage_of (Entries_count f n) = Others"
| "stage_of Config_valid = Final"
| "stage_of Creating_dir = Driver"
| "stage_of No_yaml_files = Driver"
| "stage_of (Found n) = Driver"
| "stage_of All_valid = Driver"
| "stage_of (Note t) = Driver"
| "stage_of Some_errors = Driver"

definition lines_from :: "stage \<Rightarrow> 'a run \<Rightarrow> bool" where
  "lines_from st r = list_all (\<lambda>l. stage_of l = st) (fst r)"

subsection \<open>The complete list of violations\<close>

text \<open>
  The specification speaks of "the complete ordered list of violations" of a document. The
  script never builds such a list. The definitions below follow the specification's words,
  for comparison with the script: each rule that the script checks is evaluated on its own, in
  the script's order and with the script's tests, and none ends the evaluation. A test that
  Python cannot carry out on the value at hand (it would raise) contributes no violation.

  A required field is violated when it is absent or falsy.
\<close>

definition field_violations :: "yaml \<Rightarrow> string \<Rightarrow> line list" where
  "field_violations config field =
     (case py_contains field config of
        Inl e \<Rightarrow> []
      | Inr False \<Rightarrow> [Missing_required field]
      | Inr True \<Rightarrow>
          (case py_getitem config field of
             Inl e \<Rightarrow> []
           | Inr v \<Rightarrow> if py_truthy v then [] else [Missing_required field]))"

text \<open>\<open>mode_override\<close> and \<open>intelligence\<close> are violated when present and outside their lists.\<close>

definition mode_violations :: "yaml \<Rightarrow> line list" where
  "mode_violations config =
     (case py_getitem config ''mode_override'' of
        Inl e \<Rightarrow> []
      | Inr v \<Rightarrow> if v \<in> set (map YStr valid_modes) then [] else [Invalid_mode v valid_modes])"

definition intelligence_violations :: "yaml \<Rightarrow> line list" where
  "intelligence_violations config =
     (case py_getitem config ''intelligence'' of
        Inl e \<Rightarrow> []
      | Inr v \<Rightarrow>
          if v \<in> set (map YStr valid_levels) then [] else [Invalid_intelligence v valid_levels])"

text \<open>
  A tool entry is violated when it has no \<open>name\<close>, and when its \<open>permission\<close> is present and
  outside its list (the line then carries the name of the tool, \<open>None\<close> when it has none).
\<close>

definition tool_violations :: "yaml \<Rightarrow> line list" where
  "tool_violations tool =
     (case py_contains ''name'' tool of Inr False \<Rightarrow> [Tool_missing_name] | _ \<Rightarrow> [])
     @ (case py_getitem tool ''permission'' of
          Inl e \<Rightarrow> []
        | Inr permission \<Rightarrow>
            if permission \<in> set (map YStr valid_permissions) then []
            else [Invalid_permission
                    (case py_getitem tool ''name'' of Inr nm \<Rightarrow> nm | Inl e \<Rightarrow> YNone)
                    permission])"

text \<open>The entries that a loop over \<open>config[key]\<close> visits, none when there is nothing to visit.\<close>

definition entries_of :: "yaml \<Rightarrow> string \<Rightarrow> yaml list" where
  "entries_of config key =
     (case py_getitem config key of
        Inl e \<Rightarrow> []
      | Inr v \<Rightarrow> (case py_iter v of Inl e \<Rightarrow> [] | Inr xs \<Rightarrow> xs))"

text \<open>A parameter entry is violated for each of \<open>name\<close> and \<open>description\<close> that it lacks.\<close>

definition param_violations :: "yaml \<Rightarrow> line list" where
  "param_violations param =
     concat (map (\<lambda>field. case py_contains field param of
                              Inr False \<Rightarrow> [Param_missing field] | _ \<Rightarrow> [])
                 [''name'', ''description''])"

definition all_violations :: "yaml \<Rightarrow> line list" where
  "all_violations config =
     concat (map (field_violations config) required)
     @ mode_violations config
     @ intelligence_violations config
     @ concat (map tool_violations (entries_of config ''tools''))
     @ concat (map param_violations (entries_of config ''parameters''))"

text \<open>
  \<open>first_of vs r\<close>: unless it raises, the run \<open>r\<close> reports the first violation of the list
  \<open>vs\<close> and no other, and returns \<open>False\<close> exactly when the list is not empty.
\<close>

definition first_of :: "line list \<Rightarrow> bool run \<Rightarrow> bool" where
  "first_of vs r =
     ((\<forall>e. snd r \<noteq> Some (Raised e)) \<longrightarrow>
        violations (fst r) = take 1 vs \<and> (snd r = Some (Returned False)) = (vs \<noteq> []))"

section \<open>The scope resolver\<close>

text \<open>
  Modelled from the spec: the document model of sections 3 and 4.1. The loader that keeps
  agents apart by scope is not among the sources (the script only names it in its closing
  message), so the fields are those the spec lists, an absent optional field being \<open>None\<close>.
\<close>

datatype mode = Plan | Build | Review

datatype level = Light | Medium | Hard

datatype permission = Allow | Deny | Restricted

record ToolSpec =
  tool_name :: string
  tool_permission :: "permission option"
  tool_restrictions :: "string list option"

record ParamSpec =
  param_name :: string
  param_description :: string

record AgentDoc =
  agent_name :: string
  agent_description :: string
  agent_prompt :: string
  agent_mode_override :: "mode option"
  agent_intelligence :: "level option"
  agent_tools :: "ToolSpec list"
  agent_parameters :: "ParamSpec list"
  agent_tags :: "string list option"
  agent_file_patterns :: "string list option"
  agent_metadata :: "(string \<times> yaml) list option"

text \<open>
  Modelled from the spec: an \<open>AgentConfig\<close> of the merged result is the document of one file
  with its \<open>origin\<close>, which the resolver sets and the file does not hold.
\<close>

datatype origin = Global | Project

record AgentConfig =
  document :: AgentDoc
  origin :: origin

text \<open>
  Modelled from the spec: what parsing, building and validating one file gives (section 4.4):
  a valid document, or a per-file failure with its reason.
\<close>

datatype loaded = Valid AgentDoc | Failed string

text \<open>
  Modelled from the spec: the merge rule of section 4.4. The files of a scope are inserted
  into the name-keyed mapping in discovery order; an entry with the name of an existing one
  replaces it entirely; a file that failed is left out.
\<close>

fun insert_scope ::
  "origin \<Rightarrow> (string \<times> loaded) list \<Rightarrow> (string \<rightharpoonup> AgentConfig) \<Rightarrow> (string \<rightharpoonup> AgentConfig)" where
  "insert_scope scope [] merged = merged"
| "insert_scope scope ((path, Failed reason) # files) merged = insert_scope scope files merged"
| "insert_scope scope ((path, Valid doc) # files) merged =
     insert_scope scope files (merged(agent_name doc \<mapsto> \<lparr>document = doc, origin = scope\<rparr>))"

text \<open>
  Modelled from the spec: the per-file failures (path and reason) that the resolver returns
  with the mapping.
\<close>

fun failures :: "(string \<times> loaded) list \<Rightarrow> (string \<times> string) list" where
  "failures [] = []"
| "failures ((path, Failed reason) # files) = (path, reason) # failures files"
| "failures ((path, Valid doc) # files) = failures files"

text \<open>
  Modelled from the spec: the resolver entry point of section 6, on the loaded files of the
  global directory and of the project directory: global-scope entries are inserted first, then
  project-scope entries.
\<close>

definition resolve ::
  "(string \<times> loaded) list \<Rightarrow> (string \<times> loaded) list
     \<Rightarrow> (string \<rightharpoonup> AgentConfig) \<times> (string \<times> string) list" where
  "resolve global_files project_files =
     (insert_scope Project project_files (insert_scope Global global_files Map.empty),
      failures global_files @ failures project_files)"

section \<open>Properties of the task sample\<close>

lemma wf_add_task: "wf_manager m \<Longrightarrow> wf_manager (add_task m t)"
  by (simp add: wf_manager_def add_task_def distinct_update)

lemma wf_remove_task: "wf_manager m \<Longrightarrow> wf_manager (snd (remove_task m tid))"
  by (simp add: wf_manager_def remove_task_def distinct_delete)

lemma wf_init_manager: "wf_manager init_manager"
  by (simp add: wf_manager_def init_manager_def)

lemma sum_list_indicator:
  "(\<Sum>x \<leftarrow> xs. if P x then (1::int) else 0) = int (length (filter P xs))"
  by (induction xs) auto

text \<open>
  C8. \<open>remove_task\<close> returns \<open>True\<close> exactly when a task is stored under the id; after the call
  the id is not a key of the task map, whatever the flag; every other key keeps its task; and
  when the flag is \<open>False\<close> the manager is the one before the call.
\<close>

theorem remove_task_spec:
  "fst (remove_task m tid) = (get_task m tid \<noteq> None)
   \<and> get_task (snd (remove_task m tid)) tid = None
   \<and> (\<forall>k. k \<noteq> tid \<longrightarrow> get_task (snd (remove_task m tid)) k = get_task m k)
   \<and> (\<not> fst (remove_task m tid) \<longrightarrow> snd (remove_task m tid) = m)"
proof -
  have present: "(tid \<in> fst ` set (tasks m)) = (map_of (tasks m) tid \<noteq> None)"
    by (simp add: map_of_eq_None_iff)
  have gone: "map_of (AList.delete tid (tasks m)) tid = None"
    by (simp add: delete_conv)
  have others: "\<And>k. k \<noteq> tid \<Longrightarrow> map_of (AList.delete tid (tasks m)) k = map_of (tasks m) k"
    by (simp add: delete_conv)
  show ?thesis
    using present gone others
    by (simp add: remove_task_def get_task_def)
qed

theorem remove_task_spec_witness:
  "fst (remove_task (add_task (init_manager :: unit TaskManager)
          \<lparr>task_id = ''1'', title = ''Learn Python'', completed = False, created_at = 0,
           tags = [''learning''], metadata = []\<rparr>) ''2'') = False
   \<and> snd (remove_task (add_task (init_manager :: unit TaskManager)
          \<lparr>task_id = ''1'', title = ''Learn Python'', completed = False, created_at = 0,
           tags = [''learning''], metadata = []\<rparr>) ''2'')
     = add_task init_manager
          \<lparr>task_id = ''1'', title = ''Learn Python'', completed = False, created_at = 0,
           tags = [''learning''], metadata = []\<rparr>
   \<and> fst (remove_task (add_task (init_manager :: unit TaskManager)
          \<lparr>task_id = ''1'', title = ''Learn Python'', completed = False, created_at = 0,
           tags = [''learning''], metadata = []\<rparr>) ''1'') = True"
  using remove_task_spec [of "add_task (init_manager :: unit TaskManager)
          \<lparr>task_id = ''1'', title = ''Learn Python'', completed = False, created_at = 0,
           tags = [''learning''], metadata = []\<rparr>" "''2''"]
    remove_task_spec [of "add_task (init_manager :: unit TaskManager)
          \<lparr>task_id = ''1'', title = ''Learn Python'', completed = False, created_at = 0,
           tags = [''learning''], metadata = []\<rparr>" "''1''"]
  by (simp add: get_task_def add_task_def init_manager_def)

text \<open>
  C10. \<open>get_stats\<close> returns a dict whose \<open>total\<close> is the number of stored tasks (the number
  of items, which is the number of keys of a well-formed manager), whose \<open>completed\<close> is the
  number of stored tasks with \<open>completed == True\<close>, and in which
  \<open>total = completed + pending\<close>.
\<close>

theorem get_stats_spec:
  "\<exists>total completed_n pending.
     get_stats m = [(''total'', total), (''completed'', completed_n), (''pending'', pending)]
     \<and> total = int (length (tasks m))
     \<and> (wf_manager m \<longrightarrow> total = int (card (dom (map_of (tasks m)))))
     \<and> completed_n = int (length (filter completed (map snd (tasks m))))
     \<and> total = completed_n + pending"
proof -
  have keys: "wf_manager m \<Longrightarrow> card (dom (map_of (tasks m))) = length (tasks m)"
  proof -
    assume "wf_manager m"
    then have "card (set (map fst (tasks m))) = length (map fst (tasks m))"
      unfolding wf_manager_def by (rule distinct_card)
    then show ?thesis
      by (simp add: dom_map_of_conv_image_fst)
  qed
  show ?thesis
    unfolding get_stats_def Let_def sum_list_indicator
    using keys by simp
qed

theorem get_stats_spec_witness:
  "wf_manager (\<lparr>tasks = [(''1'', \<lparr>task_id = ''1'', title = ''a'', completed = True,
        created_at = 0, tags = [], metadata = []\<rparr>),
      (''2'', \<lparr>task_id = ''2'', title = ''b'', completed = False,
        created_at = 1, tags = [], metadata = []\<rparr>)]\<rparr> :: unit TaskManager)
   \<and> get_stats (\<lparr>tasks = [(''1'', \<lparr>task_id = ''1'', title = ''a'', completed = True,
        created_at = 0, tags = [], metadata = []\<rparr>),
      (''2'', \<lparr>task_id = ''2'', title = ''b'', completed = False,
        created_at = 1, tags = [], metadata = []\<rparr>)]\<rparr> :: unit TaskManager)
     = [(''total'', 2), (''completed'', 1), (''pending'', 1)]"
  using get_stats_spec [of "\<lparr>tasks = [(''1'', \<lparr>task_id = ''1'', title = ''a'', completed = True,
        created_at = 0, tags = [], metadata = []\<rparr>),
      (''2'', \<lparr>task_id = ''2'', title = ''b'', completed = False,
        created_at = 1, tags = [], metadata = []\<rparr>)]\<rparr> :: unit TaskManager"]
  by (simp add: wf_manager_def get_stats_def)

lemma count_list_distinct:
  "distinct xs \<Longrightarrow> count_list xs x = (if x \<in> set xs then 1 else 0)"
  by (induction xs) auto

text \<open>
  C9, as the code has it. \<open>add_tag\<close> never introduces a duplicate: after \<open>add_tag(tag)\<close> the
  tag occurs once if it was absent and as often as before if it was present, and no other tag
  changes its count. So a duplicate-free list stays duplicate-free and then holds the tag
  exactly once. \<open>add_tag\<close> with a tag already present leaves the task unchanged, and
  \<open>add_tag\<close> is idempotent.
\<close>

theorem add_tag_spec:
  "count_list (tags (add_tag t tag)) tag = max 1 (count_list (tags t) tag)
   \<and> (\<forall>u. u \<noteq> tag \<longrightarrow> count_list (tags (add_tag t tag)) u = count_list (tags t) u)
   \<and> (distinct (tags t) \<longrightarrow>
        distinct (tags (add_tag t tag)) \<and> count_list (tags (add_tag t tag)) tag = 1)
   \<and> (tag \<in> set (tags t) \<longrightarrow> add_tag t tag = t)
   \<and> add_tag (add_tag t tag) tag = add_tag t tag"
proof -
  have present: "0 < count_list (tags t) tag" if "tag \<in> set (tags t)"
  proof -
    from that have "count_list (tags t) tag \<noteq> 0"
      by (simp add: count_list_0_iff)
    then show ?thesis by simp
  qed
  have cnt: "count_list (tags (add_tag t tag)) tag = max 1 (count_list (tags t) tag)"
    using present by (auto simp: add_tag_def count_list_0_iff max_def)
  have one: "count_list (tags t) tag = 1" if "distinct (tags t)" "tag \<in> set (tags t)"
    using that by (simp add: count_list_distinct)
  show ?thesis
    using cnt one by (auto simp: add_tag_def)
qed

theorem add_tag_spec_witness:
  "tags (add_tag (\<lparr>task_id = ''1'', title = ''Learn Python'', completed = False, created_at = 0,
        tags = [''learning''], metadata = []\<rparr> :: unit Task) ''programming'')
     = [''learning'', ''programming'']
   \<and> count_list (tags (add_tag (\<lparr>task_id = ''1'', title = ''Learn Python'', completed = False,
        created_at = 0, tags = [''learning''], metadata = []\<rparr> :: unit Task) ''programming''))
        ''programming'' = 1
   \<and> add_tag (\<lparr>task_id = ''1'', title = ''Learn Python'', completed = False, created_at = 0,
        tags = [''learning''], metadata = []\<rparr> :: unit Task) ''learning''
     = \<lparr>task_id = ''1'', title = ''Learn Python'', completed = False, created_at = 0,
        tags = [''learning''], metadata = []\<rparr>"
proof -
  have d: "distinct (tags (\<lparr>task_id = ''1'', title = ''Learn Python'', completed = False,
      created_at = 0, tags = [''learning''], metadata = []\<rparr> :: unit Task))"
    by simp
  have m: "''learning'' \<in> set (tags (\<lparr>task_id = ''1'', title = ''Learn Python'',
      completed = False, created_at = 0, tags = [''learning''], metadata = []\<rparr> :: unit Task))"
    by simp
  show ?thesis
    using add_tag_spec [of "\<lparr>task_id = ''1'', title = ''Learn Python'', completed = False,
        created_at = 0, tags = [''learning''], metadata = []\<rparr> :: unit Task" "''programming''"]
      add_tag_spec [of "\<lparr>task_id = ''1'', title = ''Learn Python'', completed = False,
        created_at = 0, tags = [''learning''], metadata = []\<rparr> :: unit Task" "''learning''"]
      d m
    by (simp add: add_tag_def)
qed

text \<open>
  A task built with a tag twice in its list (the constructor takes any list): after
  \<open>add_tag\<close> of that tag it still occurs twice.
\<close>

theorem add_tag_duplicate_counterexample:
  "count_list (tags (add_tag (\<lparr>task_id = ''1'', title = ''Learn Python'', completed = False,
        created_at = 0, tags = [''learning'', ''learning''], metadata = []\<rparr> :: unit Task)
        ''learning'')) ''learning'' = 2"
  by (simp add: add_tag_def)

section \<open>Properties of the configuration checker\<close>

subsection \<open>Runs\<close>


lemma snd_andthen: "snd (andthen p q) = (case snd p of None \<Rightarrow> snd q | Some r \<Rightarrow> Some r)"
  by (simp add: andthen_def split: option.splits)

lemma fst_andthen: "fst (andthen p q) = (case snd p of None \<Rightarrow> fst p @ fst q | Some r \<Rightarrow> fst p)"
  by (simp add: andthen_def split: option.splits)

lemma andthen_emit: "andthen (emit ls) q = (ls @ fst q, snd q)"
  by (simp add: andthen_def emit_def)

lemma ov_emit: "violations ls = [] \<Longrightarrow> one_violation (emit ls)"
  by (simp add: one_violation_def emit_def)

lemma ov_ret_False: "is_violation x \<Longrightarrow> one_violation (ret [x] False)"
  by (simp add: one_violation_def ret_def violations_def)

lemma ov_ret_True: "violations ls = [] \<Longrightarrow> one_violation (ret ls True)"
  by (simp add: one_violation_def ret_def)

lemma ov_on_value: "(\<And>v. one_violation (f v)) \<Longrightarrow> one_violation (on_value x f)"
  by (cases x) (simp_all add: on_value_def one_violation_def violations_def)

lemma ov_if: "(c \<Longrightarrow> one_violation a) \<Longrightarrow> (\<not> c \<Longrightarrow> one_violation b) \<Longrightarrow> one_violation (if c then a else b)"
  by simp

lemma ov_andthen:
  assumes "one_violation p" and "one_violation q"
  shows "one_violation (andthen p q)"
proof (cases "snd p")
  case None
  with assms(1) have vp: "violations (fst p) = []"
    by (simp add: one_violation_def)
  have eq: "andthen p q = (fst p @ fst q, snd q)"
    using None by (simp add: andthen_def)
  show ?thesis
  proof (cases "snd q = Some (Returned False)")
    case True
    with assms(2) have vq: "violations (fst q) = [last (fst q)]"
      by (simp add: one_violation_def)
    then have "fst q \<noteq> []"
      by (auto simp: violations_def)
    then have "last (fst p @ fst q) = last (fst q)"
      by simp
    with vp vq True eq show ?thesis
      by (simp add: one_violation_def violations_def)
  next
    case False
    with assms(2) have "violations (fst q) = []"
      by (simp add: one_violation_def)
    with vp False eq show ?thesis
      by (simp add: one_violation_def violations_def)
  qed
next
  case (Some r)
  then have "andthen p q = p"
    by (simp add: andthen_def)
  with assms(1) show ?thesis by simp
qed

lemmas ov_rules = ov_andthen ov_on_value ov_if ov_emit ov_ret_False ov_ret_True

lemma ov_check_field: "one_violation (check_field w config field)"
  unfolding check_field_def by (intro ov_rules) (simp_all add: violations_def)

lemma ov_check_required: "one_violation (check_required w config fs)"
  by (induction fs) (simp_all add: ov_emit violations_def ov_andthen ov_check_field)

lemma ov_check_mode_override: "one_violation (check_mode_override config)"
  unfolding check_mode_override_def by (intro ov_rules) (simp_all add: violations_def)

lemma ov_check_intelligence: "one_violation (check_intelligence config)"
  unfolding check_intelligence_def by (intro ov_rules) (simp_all add: violations_def)

lemma ov_check_tool: "one_violation (check_tool tool)"
  unfolding check_tool_def by (intro ov_rules) (simp_all add: violations_def)

lemma ov_check_tool_list: "one_violation (check_tool_list ts)"
  by (induction ts) (simp_all add: ov_emit violations_def ov_andthen ov_check_tool)

lemma ov_check_tools: "one_violation (check_tools config)"
  unfolding check_tools_def by (intro ov_rules ov_check_tool_list) (simp_all add: violations_def)

lemma ov_check_param_fields: "one_violation (check_param_fields param fs)"
  by (induction fs) (auto intro!: ov_rules simp: violations_def)

lemma ov_check_param: "one_violation (check_param param)"
  unfolding check_param_def by (intro ov_rules ov_check_param_fields) (simp_all add: violations_def)

lemma ov_check_param_list: "one_violation (check_param_list ps)"
  by (induction ps) (simp_all add: ov_emit violations_def ov_andthen ov_check_param)

lemma ov_check_parameters: "one_violation (check_parameters config)"
  unfolding check_parameters_def by (intro ov_rules ov_check_param_list) (simp_all add: violations_def)

lemma ov_check_other_fields: "one_violation (check_other_fields config fs)"
  by (induction fs) (auto intro!: ov_rules simp: violations_def split: yaml.splits)

lemma ov_validate: "one_violation (validate w config)"
  unfolding validate_def
  by (intro ov_andthen ov_check_required ov_check_mode_override ov_check_intelligence
      ov_check_tools ov_check_parameters ov_check_other_fields ov_ret_True)
    (simp add: violations_def)


lemma nt_emit: "never_true (emit ls)"
  by (simp add: never_true_def emit_def)

lemma nt_ret_False: "never_true (ret ls False)"
  by (simp add: never_true_def ret_def)

lemma nt_on_value: "(\<And>v. never_true (f v)) \<Longrightarrow> never_true (on_value x f)"
  by (cases x) (simp_all add: on_value_def never_true_def)

lemma nt_if: "(c \<Longrightarrow> never_true a) \<Longrightarrow> (\<not> c \<Longrightarrow> never_true b) \<Longrightarrow> never_true (if c then a else b)"
  by simp

lemma nt_andthen: "never_true p \<Longrightarrow> never_true q \<Longrightarrow> never_true (andthen p q)"
  by (auto simp: never_true_def snd_andthen split: option.splits)

lemmas nt_rules = nt_andthen nt_on_value nt_if nt_emit nt_ret_False

lemma nt_check_field: "never_true (check_field w config field)"
  unfolding check_field_def by (intro nt_rules)

lemma nt_check_required: "never_true (check_required w config fs)"
  by (induction fs) (simp_all add: nt_emit nt_andthen nt_check_field)

lemma nt_check_mode_override: "never_true (check_mode_override config)"
  unfolding check_mode_override_def by (intro nt_rules)

lemma nt_check_intelligence: "never_true (check_intelligence config)"
  unfolding check_intelligence_def by (intro nt_rules)

lemma nt_check_tool: "never_true (check_tool tool)"
  unfolding check_tool_def by (intro nt_rules)

lemma nt_check_tool_list: "never_true (check_tool_list ts)"
  by (induction ts) (simp_all add: nt_emit nt_andthen nt_check_tool)

lemma nt_check_tools: "never_true (check_tools config)"
  unfolding check_tools_def by (intro nt_rules nt_check_tool_list)

lemma nt_check_param_fields: "never_true (check_param_fields param fs)"
  by (induction fs) (auto intro!: nt_rules)

lemma nt_check_param: "never_true (check_param param)"
  unfolding check_param_def by (intro nt_rules nt_check_param_fields)

lemma nt_check_param_list: "never_true (check_param_list ps)"
  by (induction ps) (simp_all add: nt_emit nt_andthen nt_check_param)

lemma nt_check_parameters: "never_true (check_parameters config)"
  unfolding check_parameters_def by (intro nt_rules nt_check_param_list)

lemma nt_check_other_fields: "never_true (check_other_fields config fs)"
  by (induction fs) (auto intro!: nt_rules split: yaml.splits)

lemma andthen_True_iff:
  "never_true p \<Longrightarrow> snd (andthen p q) = Some (Returned True) \<longleftrightarrow> snd p = None \<and> snd q = Some (Returned True)"
  by (auto simp: never_true_def snd_andthen split: option.splits)

lemma validate_True_iff:
  "snd (validate w config) = Some (Returned True) \<longleftrightarrow>
     snd (check_required w config required) = None
     \<and> snd (check_mode_override config) = None
     \<and> snd (check_intelligence config) = None
     \<and> snd (check_tools config) = None
     \<and> snd (check_parameters config) = None
     \<and> snd (check_other_fields config [''tags'', ''file_patterns'', ''metadata'']) = None"
  unfolding validate_def
  by (simp only: andthen_True_iff nt_check_required nt_check_mode_override nt_check_intelligence
      nt_check_tools nt_check_parameters nt_check_other_fields)
     (simp add: ret_def)

lemma contains_update_other:
  "k \<noteq> k' \<Longrightarrow> py_contains k (YDict (AList.update (YStr k') v d)) = py_contains k (YDict d)"
  by (simp add: update_conv')

lemma getitem_update_other:
  "k \<noteq> k' \<Longrightarrow> py_getitem (YDict (AList.update (YStr k') v d)) k = py_getitem (YDict d) k"
  by (simp add: update_conv')

lemma contains_update_same: "py_contains k (YDict (AList.update (YStr k) v d)) = Inr True"
  by (simp add: update_conv')

lemma getitem_update_same: "py_getitem (YDict (AList.update (YStr k) v d)) k = Inr v"
  by (simp add: update_conv')

lemma check_field_update:
  assumes "field \<noteq> k'"
  shows "check_field w (YDict (AList.update (YStr k') v d)) field = check_field w (YDict d) field"
  unfolding check_field_def contains_update_other [OF assms] getitem_update_other [OF assms]
  by (rule refl)

lemma check_required_update:
  "k' \<notin> set fs \<Longrightarrow> check_required w (YDict (AList.update (YStr k') v d)) fs = check_required w (YDict d) fs"
  by (induction fs) (auto simp: check_field_update)

lemma check_mode_override_update:
  assumes "''mode_override'' \<noteq> k'"
  shows "check_mode_override (YDict (AList.update (YStr k') v d)) = check_mode_override (YDict d)"
  unfolding check_mode_override_def contains_update_other [OF assms] getitem_update_other [OF assms]
  by (rule refl)

lemma check_intelligence_update:
  assumes "''intelligence'' \<noteq> k'"
  shows "check_intelligence (YDict (AList.update (YStr k') v d)) = check_intelligence (YDict d)"
  unfolding check_intelligence_def contains_update_other [OF assms] getitem_update_other [OF assms]
  by (rule refl)

lemma check_parameters_update:
  assumes "''parameters'' \<noteq> k'"
  shows "check_parameters (YDict (AList.update (YStr k') v d)) = check_parameters (YDict d)"
  unfolding check_parameters_def contains_update_other [OF assms] getitem_update_other [OF assms]
  by (rule refl)

lemma check_other_fields_update:
  "k' \<notin> set fs \<Longrightarrow> check_other_fields (YDict (AList.update (YStr k') v d)) fs = check_other_fields (YDict d) fs"
proof (induction fs)
  case Nil
  show ?case by simp
next
  case (Cons f fs)
  then have ne: "f \<noteq> k'" and rest: "k' \<notin> set fs"
    by auto
  show ?case
    unfolding check_other_fields.simps contains_update_other [OF ne] getitem_update_other [OF ne]
      Cons.IH [OF rest]
    by (rule refl)
qed

lemma check_tools_update:
  "check_tools (YDict (AList.update (YStr ''tools'') (YList ts) d))
     = andthen (emit [Tools_count (length ts)]) (check_tool_list ts)"
  unfolding check_tools_def contains_update_same getitem_update_same
  by (simp add: on_value_def)

lemma check_tool_list_append:
  "check_tool_list (xs @ ys) = andthen (check_tool_list xs) (check_tool_list ys)"
  by (induction xs) (auto simp: andthen_def emit_def split: option.splits)

lemma check_tool_restricted:
  assumes "map_of td (YStr ''name'') = Some nm"
    and "map_of td (YStr ''permission'') = Some (YStr ''restricted'')"
    and "map_of td (YStr ''restrictions'') = None"
  shows "check_tool (YDict td) = emit [Tool_ok nm (YStr ''restricted'') None]"
  using assms by (simp add: check_tool_def on_value_def valid_permissions_def)

lemma check_tool_no_name:
  assumes "map_of td (YStr ''name'') = None"
  shows "check_tool (YDict td) = ret [Tool_missing_name] False"
  using assms by (simp add: check_tool_def on_value_def)

lemma tools_pass_list:
  assumes "snd (check_tools (YDict d)) = None"
    and "map_of d (YStr ''tools'') = Some (YList ts)"
  shows "snd (check_tool_list ts) = None"
  using assms by (simp add: check_tools_def on_value_def snd_andthen emit_def)

subsection \<open>Evaluation and the keys a check reads\<close>

lemmas validate_defs =
  validate_def check_field_def check_mode_override_def check_intelligence_def check_tool_def
  check_tools_def check_param_def check_parameters_def required_def valid_modes_def
  valid_levels_def valid_permissions_def str_len_def emit_def ret_def andthen_def on_value_def
  violations_def

lemma untouched_by_tools:
  "check_required w (YDict (AList.update (YStr ''tools'') v d)) required
     = check_required w (YDict d) required"
  "check_mode_override (YDict (AList.update (YStr ''tools'') v d)) = check_mode_override (YDict d)"
  "check_intelligence (YDict (AList.update (YStr ''tools'') v d)) = check_intelligence (YDict d)"
  "check_parameters (YDict (AList.update (YStr ''tools'') v d)) = check_parameters (YDict d)"
  "check_other_fields (YDict (AList.update (YStr ''tools'') v d))
       [''tags'', ''file_patterns'', ''metadata'']
     = check_other_fields (YDict d) [''tags'', ''file_patterns'', ''metadata'']"
proof -
  show "check_required w (YDict (AList.update (YStr ''tools'') v d)) required
     = check_required w (YDict d) required"
    by (rule check_required_update) (simp add: required_def)
  show "check_mode_override (YDict (AList.update (YStr ''tools'') v d))
     = check_mode_override (YDict d)"
    by (rule check_mode_override_update) simp
  show "check_intelligence (YDict (AList.update (YStr ''tools'') v d))
     = check_intelligence (YDict d)"
    by (rule check_intelligence_update) simp
  show "check_parameters (YDict (AList.update (YStr ''tools'') v d))
     = check_parameters (YDict d)"
    by (rule check_parameters_update) simp
  show "check_other_fields (YDict (AList.update (YStr ''tools'') v d))
       [''tags'', ''file_patterns'', ''metadata'']
     = check_other_fields (YDict d) [''tags'', ''file_patterns'', ''metadata'']"
    by (rule check_other_fields_update) simp
qed

subsection \<open>Which statement prints which line\<close>

lemma lf_emit: "list_all (\<lambda>l. stage_of l = st) ls \<Longrightarrow> lines_from st (emit ls)"
  by (simp add: lines_from_def emit_def)

lemma lf_ret: "list_all (\<lambda>l. stage_of l = st) ls \<Longrightarrow> lines_from st (ret ls b)"
  by (simp add: lines_from_def ret_def)

lemma lf_on_value: "(\<And>v. lines_from st (f v)) \<Longrightarrow> lines_from st (on_value x f)"
  by (cases x) (simp_all add: on_value_def lines_from_def)

lemma lf_if: "(c \<Longrightarrow> lines_from st a) \<Longrightarrow> (\<not> c \<Longrightarrow> lines_from st b) \<Longrightarrow> lines_from st (if c then a else b)"
  by simp

lemma lf_andthen: "lines_from st p \<Longrightarrow> lines_from st q \<Longrightarrow> lines_from st (andthen p q)"
  by (simp add: lines_from_def andthen_def split: option.splits)

lemmas lf_rules = lf_andthen lf_on_value lf_if lf_emit lf_ret

lemma lf_check_field: "lines_from Required (check_field w config field)"
  unfolding check_field_def by (intro lf_rules) simp_all

lemma lf_check_required: "lines_from Required (check_required w config fs)"
  by (induction fs) (simp_all add: lf_emit lf_andthen lf_check_field)

lemma lf_check_mode_override: "lines_from Mode (check_mode_override config)"
  unfolding check_mode_override_def by (intro lf_rules) simp_all

lemma lf_check_intelligence: "lines_from Intelligence (check_intelligence config)"
  unfolding check_intelligence_def by (intro lf_rules) simp_all

lemma lf_check_tool: "lines_from Tools (check_tool tool)"
  unfolding check_tool_def by (intro lf_rules) simp_all

lemma lf_check_tool_list: "lines_from Tools (check_tool_list ts)"
  by (induction ts) (simp_all add: lf_emit lf_andthen lf_check_tool)

lemma lf_check_tools: "lines_from Tools (check_tools config)"
  unfolding check_tools_def by (intro lf_rules lf_check_tool_list) simp_all

lemma lf_check_param_fields: "lines_from Parameters (check_param_fields param fs)"
  by (induction fs) (auto intro!: lf_rules)

lemma lf_check_param: "lines_from Parameters (check_param param)"
  unfolding check_param_def by (intro lf_rules lf_check_param_fields) simp_all

lemma lf_check_param_list: "lines_from Parameters (check_param_list ps)"
  by (induction ps) (simp_all add: lf_emit lf_andthen lf_check_param)

lemma lf_check_parameters: "lines_from Parameters (check_parameters config)"
  unfolding check_parameters_def by (intro lf_rules lf_check_param_list) simp_all

lemma lf_check_other_fields: "lines_from Others (check_other_fields config fs)"
  by (induction fs) (auto intro!: lf_rules split: yaml.splits)

lemma lines_fromD: "lines_from st r \<Longrightarrow> l \<in> set (fst r) \<Longrightarrow> stage_of l = st"
  by (simp add: lines_from_def list_all_iff)

lemma set_fst_andthen: "set (fst (andthen p q)) \<subseteq> set (fst p) \<union> set (fst q)"
  by (auto simp: andthen_def split: option.splits)

lemma validate_lines:
  assumes "l \<in> set (fst (validate w config))"
  shows "l \<in> set (fst (check_required w config required))
       \<or> l \<in> set (fst (check_mode_override config))
       \<or> l \<in> set (fst (check_intelligence config))
       \<or> l \<in> set (fst (check_tools config))
       \<or> l \<in> set (fst (check_parameters config))
       \<or> l \<in> set (fst (check_other_fields config [''tags'', ''file_patterns'', ''metadata'']))
       \<or> l = Config_valid"
proof -
  have "set (fst (validate w config)) \<subseteq>
      set (fst (check_required w config required))
      \<union> (set (fst (check_mode_override config))
      \<union> (set (fst (check_intelligence config))
      \<union> (set (fst (check_tools config))
      \<union> (set (fst (check_parameters config))
      \<union> (set (fst (check_other_fields config [''tags'', ''file_patterns'', ''metadata'']))
      \<union> {Config_valid})))))"
    unfolding validate_def
    by (intro order_trans [OF set_fst_andthen] Un_mono order_refl) (simp add: ret_def)
  with assms show ?thesis by auto
qed

lemma validate_required_lines:
  assumes "l \<in> set (fst (validate w config))" and "stage_of l = Required"
  shows "l \<in> set (fst (check_required w config required))"
  using validate_lines [OF assms(1)] assms(2)
    lines_fromD [OF lf_check_mode_override, of l config]
    lines_fromD [OF lf_check_intelligence, of l config]
    lines_fromD [OF lf_check_tools, of l config]
    lines_fromD [OF lf_check_parameters, of l config]
    lines_fromD [OF lf_check_other_fields, of l config "[''tags'', ''file_patterns'', ''metadata'']"]
  by (auto simp del: check_other_fields.simps)

lemma validate_mode_lines:
  assumes "l \<in> set (fst (validate w config))" and "stage_of l = Mode"
  shows "l \<in> set (fst (check_mode_override config))"
  using validate_lines [OF assms(1)] assms(2)
    lines_fromD [OF lf_check_required, of l w config]
    lines_fromD [OF lf_check_intelligence, of l config]
    lines_fromD [OF lf_check_tools, of l config]
    lines_fromD [OF lf_check_parameters, of l config]
    lines_fromD [OF lf_check_other_fields, of l config "[''tags'', ''file_patterns'', ''metadata'']"]
  by (auto simp del: check_other_fields.simps)

subsection \<open>Tool entries\<close>

text \<open>
  C7. Take a document that validates (\<open>verify_yaml_config\<close> reaches \<open>return True\<close>) and a tool
  entry with a \<open>name\<close>, with \<open>permission = "restricted"\<close> and without \<open>restrictions\<close>. The
  check of the entry prints its line and reports nothing, and the document with the entry put
  anywhere into its \<open>tools\<close> list (or as its only tool, when it had no \<open>tools\<close>) still
  validates, with no violation reported.
\<close>

theorem restricted_tool_without_restrictions:
  assumes valid: "snd (validate w (YDict d)) = Some (Returned True)"
    and tools: "map_of d (YStr ''tools'') = Some (YList (ts1 @ ts2))
                \<or> (map_of d (YStr ''tools'') = None \<and> ts1 @ ts2 = [])"
    and name: "map_of td (YStr ''name'') = Some nm"
    and permission: "map_of td (YStr ''permission'') = Some (YStr ''restricted'')"
    and restrictions: "map_of td (YStr ''restrictions'') = None"
  shows "check_tool (YDict td) = emit [Tool_ok nm (YStr ''restricted'') None]
    \<and> snd (validate w (YDict (AList.update (YStr ''tools'') (YList (ts1 @ YDict td # ts2)) d)))
        = Some (Returned True)
    \<and> violations (fst (validate w
          (YDict (AList.update (YStr ''tools'') (YList (ts1 @ YDict td # ts2)) d)))) = []"
proof -
  let ?d' = "AList.update (YStr ''tools'') (YList (ts1 @ YDict td # ts2)) d"
  have tool: "check_tool (YDict td) = emit [Tool_ok nm (YStr ''restricted'') None]"
    using name permission restrictions by (rule check_tool_restricted)
  from valid have phases:
    "snd (check_required w (YDict d) required) = None"
    "snd (check_mode_override (YDict d)) = None"
    "snd (check_intelligence (YDict d)) = None"
    "snd (check_tools (YDict d)) = None"
    "snd (check_parameters (YDict d)) = None"
    "snd (check_other_fields (YDict d) [''tags'', ''file_patterns'', ''metadata'']) = None"
    by (simp_all add: validate_True_iff)
  have old: "snd (check_tool_list (ts1 @ ts2)) = None"
  proof (cases "map_of d (YStr ''tools'')")
    case None
    with tools show ?thesis by (simp add: emit_def)
  next
    case (Some v)
    with tools have "map_of d (YStr ''tools'') = Some (YList (ts1 @ ts2))" by simp
    with phases(4) show ?thesis by (rule tools_pass_list)
  qed
  then have parts: "snd (check_tool_list ts1) = None" "snd (check_tool_list ts2) = None"
    by (simp_all add: check_tool_list_append snd_andthen split: option.splits)
  have "snd (check_tool_list (ts1 @ YDict td # ts2)) = None"
    using parts tool by (simp add: check_tool_list_append snd_andthen emit_def)
  then have new_tools: "snd (check_tools (YDict ?d')) = None"
    by (simp add: check_tools_update snd_andthen emit_def)
  have result: "snd (validate w (YDict ?d')) = Some (Returned True)"
    unfolding validate_True_iff untouched_by_tools
    using phases new_tools by simp
  have "one_violation (validate w (YDict ?d'))"
    by (rule ov_validate)
  with result have "violations (fst (validate w (YDict ?d'))) = []"
    by (simp add: one_violation_def)
  with tool result show ?thesis by simp
qed

theorem restricted_tool_without_restrictions_witness:
  "snd (validate (\<lambda>v. 0) (YDict (AList.update (YStr ''tools'')
      (YList ([] @ YDict [(YStr ''name'', YStr ''shell''), (YStr ''permission'', YStr ''restricted'')] # []))
      [(YStr ''name'', YStr ''reviewer''), (YStr ''description'', YStr ''Reviews code''),
       (YStr ''prompt'', YStr ''You review code.'')]))) = Some (Returned True)"
proof -
  have valid: "snd (validate (\<lambda>v. 0) (YDict [(YStr ''name'', YStr ''reviewer''),
       (YStr ''description'', YStr ''Reviews code''),
       (YStr ''prompt'', YStr ''You review code.'')])) = Some (Returned True)"
    by (simp add: validate_defs)
  have tools: "map_of [(YStr ''name'', YStr ''reviewer''),
       (YStr ''description'', YStr ''Reviews code''),
       (YStr ''prompt'', YStr ''You review code.'')] (YStr ''tools'') = Some (YList ([] @ []))
     \<or> (map_of [(YStr ''name'', YStr ''reviewer''),
       (YStr ''description'', YStr ''Reviews code''),
       (YStr ''prompt'', YStr ''You review code.'')] (YStr ''tools'') = None \<and> [] @ [] = ([] :: yaml list))"
    by simp
  have name: "map_of [(YStr ''name'', YStr ''shell''), (YStr ''permission'', YStr ''restricted'')]
      (YStr ''name'') = Some (YStr ''shell'')"
    by simp
  have permission: "map_of [(YStr ''name'', YStr ''shell''), (YStr ''permission'', YStr ''restricted'')]
      (YStr ''permission'') = Some (YStr ''restricted'')"
    by simp
  have restrictions: "map_of [(YStr ''name'', YStr ''shell''), (YStr ''permission'', YStr ''restricted'')]
      (YStr ''restrictions'') = None"
    by simp
  show ?thesis
    using restricted_tool_without_restrictions [OF valid tools name permission restrictions]
    by simp
qed

subsection \<open>The first violation of the complete list\<close>

lemma fo_raise: "first_of vs ([], Some (Raised e))"
  by (simp add: first_of_def)

lemma fo_emit: "violations ls = [] \<Longrightarrow> first_of [] (emit ls)"
  by (simp add: first_of_def emit_def)

lemma fo_ret_False: "is_violation x \<Longrightarrow> first_of (x # vs) (ret [x] False)"
  by (simp add: first_of_def ret_def violations_def)

lemma fo_ret_True: "violations ls = [] \<Longrightarrow> first_of [] (ret ls True)"
  by (simp add: first_of_def ret_def)

lemma fo_andthen:
  assumes p: "first_of vs p" and np: "never_true p" and q: "first_of ws q"
  shows "first_of (vs @ ws) (andthen p q)"
proof (cases "snd p")
  case None
  with p have vs: "vs = []" and vp: "violations (fst p) = []"
    by (auto simp: first_of_def)
  have eq: "andthen p q = (fst p @ fst q, snd q)"
    using None by (simp add: andthen_def)
  show ?thesis
    using q vp unfolding eq vs first_of_def violations_def by simp
next
  case (Some r)
  then have eq: "andthen p q = p"
    by (simp add: andthen_def)
  show ?thesis
  proof (cases r)
    case (Returned b)
    with Some np have b: "snd p = Some (Returned False)"
      by (cases b) (simp_all add: never_true_def)
    with p have "vs \<noteq> []" and "violations (fst p) = take 1 vs"
      by (auto simp: first_of_def)
    then show ?thesis
      unfolding eq first_of_def using b by (cases vs) simp_all
  next
    case (Raised e)
    with Some show ?thesis
      unfolding eq first_of_def by simp
  qed
qed

lemma fo_check_field: "first_of (field_violations config field) (check_field w config field)"
proof (cases "py_contains field config")
  case (Inl e)
  then show ?thesis
    by (simp add: check_field_def field_violations_def on_value_def first_of_def)
next
  case (Inr present)
  show ?thesis
  proof (cases present)
    case False
    with Inr show ?thesis
      by (simp add: check_field_def field_violations_def on_value_def fo_ret_False)
  next
    case True
    show ?thesis
    proof (cases "py_getitem config field")
      case (Inl e)
      with Inr True show ?thesis
        by (simp add: check_field_def field_violations_def on_value_def first_of_def)
    next
      case v: (Inr v)
      show ?thesis
      proof (cases "py_truthy v")
        case False
        with Inr True v show ?thesis
          by (simp add: check_field_def field_violations_def on_value_def fo_ret_False)
      next
        case truthy: True
        have "first_of [] (if 50 < str_len w v
           then on_value (py_slice 50 v) (\<lambda>shown. emit [Field_ok field shown True])
           else emit [Field_ok field v False])"
          by (cases "py_slice 50 v")
             (simp_all add: on_value_def first_of_def emit_def violations_def)
        with Inr True v truthy show ?thesis
          by (simp add: check_field_def field_violations_def on_value_def)
      qed
    qed
  qed
qed

lemma fo_check_required:
  "first_of (concat (map (field_violations config) fs)) (check_required w config fs)"
proof (induction fs)
  case Nil
  show ?case by (simp add: fo_emit violations_def)
next
  case (Cons f fs)
  show ?case
    using fo_andthen [OF fo_check_field nt_check_field Cons.IH, of config f w] by simp
qed

lemma getitem_absent: "py_contains k config = Inr False \<Longrightarrow> \<exists>e. py_getitem config k = Inl e"
  by (cases config) (auto split: option.splits)

lemma fo_check_mode_override: "first_of (mode_violations config) (check_mode_override config)"
proof (cases "py_contains ''mode_override'' config")
  case (Inl e)
  then show ?thesis
    by (simp add: check_mode_override_def on_value_def first_of_def)
next
  case (Inr present)
  show ?thesis
  proof (cases present)
    case False
    with Inr getitem_absent [of "''mode_override''" config] show ?thesis
      by (auto simp: check_mode_override_def mode_violations_def on_value_def fo_emit violations_def)
  next
    case True
    with Inr show ?thesis
      by (cases "py_getitem config ''mode_override''")
         (auto simp: check_mode_override_def mode_violations_def on_value_def first_of_def
            ret_def emit_def violations_def)
  qed
qed

lemma fo_check_intelligence:
  "first_of (intelligence_violations config) (check_intelligence config)"
proof (cases "py_contains ''intelligence'' config")
  case (Inl e)
  then show ?thesis
    by (simp add: check_intelligence_def on_value_def first_of_def)
next
  case (Inr present)
  show ?thesis
  proof (cases present)
    case False
    with Inr getitem_absent [of "''intelligence''" config] show ?thesis
      by (auto simp: check_intelligence_def intelligence_violations_def on_value_def fo_emit
          violations_def)
  next
    case True
    with Inr show ?thesis
      by (cases "py_getitem config ''intelligence''")
         (auto simp: check_intelligence_def intelligence_violations_def on_value_def first_of_def
            ret_def emit_def violations_def)
  qed
qed


lemma fo_check_tool: "first_of (tool_violations tool) (check_tool tool)"
  by (cases tool)
     (auto simp: check_tool_def tool_violations_def on_value_def first_of_def ret_def emit_def
        violations_def split: option.splits sum.splits)

lemma fo_check_tool_list:
  "first_of (concat (map tool_violations ts)) (check_tool_list ts)"
proof (induction ts)
  case Nil
  show ?case by (simp add: fo_emit violations_def)
next
  case (Cons t ts)
  show ?case
    using fo_andthen [OF fo_check_tool nt_check_tool Cons.IH, of t] by simp
qed

lemma len_iter: "py_len v = Inr n \<Longrightarrow> \<exists>xs. py_iter v = Inr xs"
  by (cases v) simp_all

lemma fo_counted:
  assumes "first_of vs r" and "\<not> is_violation l"
  shows "first_of vs (andthen (emit [l]) r)"
  using fo_andthen [OF fo_emit nt_emit assms(1), of "[l]"] assms(2)
  by (simp add: violations_def)

lemma fo_check_tools:
  "first_of (concat (map tool_violations (entries_of config ''tools''))) (check_tools config)"
proof (cases "py_contains ''tools'' config")
  case (Inl e)
  then show ?thesis
    by (simp add: check_tools_def on_value_def first_of_def)
next
  case (Inr present)
  show ?thesis
  proof (cases present)
    case False
    with Inr getitem_absent [of "''tools''" config] show ?thesis
      by (auto simp: check_tools_def entries_of_def on_value_def fo_emit violations_def)
  next
    case True
    show ?thesis
    proof (cases "py_getitem config ''tools''")
      case (Inl e)
      with Inr True show ?thesis
        by (simp add: check_tools_def on_value_def first_of_def)
    next
      case v: (Inr v)
      show ?thesis
      proof (cases "py_len v")
        case (Inl e)
        with Inr True v show ?thesis
          by (simp add: check_tools_def on_value_def first_of_def)
      next
        case n: (Inr n)
        then obtain ts where ts: "py_iter v = Inr ts"
          using len_iter by blast
        have "first_of (concat (map tool_violations ts))
            (andthen (emit [Tools_count n]) (check_tool_list ts))"
          by (rule fo_counted [OF fo_check_tool_list]) simp
        with Inr True v n ts show ?thesis
          by (simp add: check_tools_def entries_of_def on_value_def)
      qed
    qed
  qed
qed

lemma fo_check_param_fields:
  "first_of (concat (map (\<lambda>field. case py_contains field param of
                              Inr False \<Rightarrow> [Param_missing field] | _ \<Rightarrow> []) fs))
     (check_param_fields param fs)"
proof (induction fs)
  case Nil
  show ?case by (simp add: fo_emit violations_def)
next
  case (Cons f fs)
  let ?step = "on_value (py_contains f param) (\<lambda>present.
          if \<not> present then ret [Param_missing f] False else emit [])"
  have step: "first_of (case py_contains f param of
                              Inr False \<Rightarrow> [Param_missing f] | _ \<Rightarrow> []) ?step"
    by (cases "py_contains f param")
       (auto simp: on_value_def first_of_def ret_def emit_def violations_def)
  have nt: "never_true ?step"
    by (intro nt_rules)
  show ?case
    using fo_andthen [OF step nt Cons.IH] by simp
qed

lemma fo_check_param: "first_of (param_violations param) (check_param param)"
proof -
  have shown: "first_of []
      (on_value (py_getitem param ''name'') (\<lambda>nm.
          on_value (py_getitem param ''description'') (\<lambda>d.
            on_value (py_slice 40 d) (\<lambda>shown. emit [Param_ok nm shown]))))"
    by (auto simp: on_value_def first_of_def emit_def violations_def split: sum.splits)
  have "first_of (param_violations param @ [])
      (andthen (check_param_fields param [''name'', ''description''])
        (on_value (py_getitem param ''name'') (\<lambda>nm.
          on_value (py_getitem param ''description'') (\<lambda>d.
            on_value (py_slice 40 d) (\<lambda>shown. emit [Param_ok nm shown])))))"
    unfolding param_violations_def
    by (rule fo_andthen [OF fo_check_param_fields nt_check_param_fields shown])
  then show ?thesis
    by (simp only: check_param_def append_Nil2)
qed

lemma fo_check_param_list:
  "first_of (concat (map param_violations ps)) (check_param_list ps)"
proof (induction ps)
  case Nil
  show ?case by (simp add: fo_emit violations_def)
next
  case (Cons p ps)
  show ?case
    using fo_andthen [OF fo_check_param nt_check_param Cons.IH, of p] by simp
qed

lemma fo_check_parameters:
  "first_of (concat (map param_violations (entries_of config ''parameters'')))
     (check_parameters config)"
proof (cases "py_contains ''parameters'' config")
  case (Inl e)
  then show ?thesis
    by (simp add: check_parameters_def on_value_def first_of_def)
next
  case (Inr present)
  show ?thesis
  proof (cases present)
    case False
    with Inr getitem_absent [of "''parameters''" config] show ?thesis
      by (auto simp: check_parameters_def entries_of_def on_value_def fo_emit violations_def)
  next
    case True
    show ?thesis
    proof (cases "py_getitem config ''parameters''")
      case (Inl e)
      with Inr True show ?thesis
        by (simp add: check_parameters_def on_value_def first_of_def)
    next
      case v: (Inr v)
      show ?thesis
      proof (cases "py_len v")
        case (Inl e)
        with Inr True v show ?thesis
          by (simp add: check_parameters_def on_value_def first_of_def)
      next
        case n: (Inr n)
        then obtain ps where ps: "py_iter v = Inr ps"
          using len_iter by blast
        have "first_of (concat (map param_violations ps))
            (andthen (emit [Parameters_count n]) (check_param_list ps))"
          by (rule fo_counted [OF fo_check_param_list]) simp
        with Inr True v n ps show ?thesis
          by (simp add: check_parameters_def entries_of_def on_value_def)
      qed
    qed
  qed
qed

lemma fo_check_other_fields: "first_of [] (check_other_fields config fs)"
proof (induction fs)
  case Nil
  show ?case by (simp add: fo_emit violations_def)
next
  case (Cons f fs)
  let ?step = "on_value (py_contains f config) (\<lambda>present.
          if present
          then on_value (py_getitem config f) (\<lambda>v.
            case v of
              YList xs \<Rightarrow> emit [Items_count f (length xs)]
            | YDict d \<Rightarrow> emit [Entries_count f (length d)]
            | _ \<Rightarrow> emit [])
          else emit [])"
  have step: "first_of [] ?step"
    by (auto simp: on_value_def first_of_def emit_def violations_def
        split: sum.splits yaml.splits)
  have nt: "never_true ?step"
    by (auto intro!: nt_rules split: yaml.splits)
  show ?case
    using fo_andthen [OF step nt Cons.IH] by simp
qed

lemma fo_validate: "first_of (all_violations config) (validate w config)"
proof -
  have "first_of
      (concat (map (field_violations config) required)
       @ (mode_violations config
       @ (intelligence_violations config
       @ (concat (map tool_violations (entries_of config ''tools''))
       @ (concat (map param_violations (entries_of config ''parameters''))
       @ ([] @ []))))))
      (validate w config)"
    unfolding validate_def
    by (intro fo_andthen fo_check_required fo_check_mode_override fo_check_intelligence
        fo_check_tools fo_check_parameters fo_check_other_fields nt_check_required
        nt_check_mode_override nt_check_intelligence nt_check_tools nt_check_parameters
        nt_check_other_fields fo_ret_True)
       (simp add: violations_def)
  then show ?thesis
    by (simp add: all_violations_def)
qed

lemmas all_violations_defs =
  all_violations_def field_violations_def mode_violations_def intelligence_violations_def
  tool_violations_def entries_of_def param_violations_def required_def valid_modes_def
  valid_levels_def valid_permissions_def

text \<open>
  C1, as the code has it. Validation applies the rules in the script's order and stops at the
  first violation. It reports a violation exactly when it returns \<open>False\<close>, and then a single
  one, the last line it prints. Unless it raises, the violation it reports is the first one
  of the complete ordered list of the document's violations, it returns \<open>False\<close> exactly when
  that list is not empty and \<open>True\<close> exactly when it is empty. In particular, when the first
  entry of \<open>tools\<close> of an otherwise valid document has no \<open>name\<close>, the missing name is the
  only violation reported, whatever the entry's \<open>permission\<close> is.
\<close>

theorem validate_reports_first_violation_only:
  "violations (fst (validate w config))
     = (if snd (validate w config) = Some (Returned False)
        then [last (fst (validate w config))] else [])
   \<and> ((\<forall>e. snd (validate w config) \<noteq> Some (Raised e)) \<longrightarrow>
        violations (fst (validate w config)) = take 1 (all_violations config)
        \<and> (snd (validate w config) = Some (Returned False)) = (all_violations config \<noteq> [])
        \<and> (snd (validate w config) = Some (Returned True)) = (all_violations config = []))
   \<and> (snd (validate w (YDict d)) = Some (Returned True) \<longrightarrow>
       map_of td (YStr ''name'') = None \<longrightarrow>
         snd (validate w (YDict (AList.update (YStr ''tools'') (YList (YDict td # ts)) d)))
           = Some (Returned False)
         \<and> violations (fst (validate w
              (YDict (AList.update (YStr ''tools'') (YList (YDict td # ts)) d))))
           = [Tool_missing_name])"
proof -
  have first: "violations (fst (validate w config))
     = (if snd (validate w config) = Some (Returned False)
        then [last (fst (validate w config))] else [])"
    using ov_validate [of w config] by (simp add: one_violation_def)
  have ordered: "violations (fst (validate w config)) = take 1 (all_violations config)
        \<and> (snd (validate w config) = Some (Returned False)) = (all_violations config \<noteq> [])
        \<and> (snd (validate w config) = Some (Returned True)) = (all_violations config = [])"
    if quiet: "\<forall>e. snd (validate w config) \<noteq> Some (Raised e)"
  proof -
    have ends: "snd (validate w config) \<noteq> None"
      by (simp add: validate_def snd_andthen ret_def split: option.splits)
    from quiet fo_validate [of config w]
    have fo: "violations (fst (validate w config)) = take 1 (all_violations config)"
      "(snd (validate w config) = Some (Returned False)) = (all_violations config \<noteq> [])"
      by (simp_all add: first_of_def)
    obtain b where b: "snd (validate w config) = Some (Returned b)"
    proof (cases "snd (validate w config)")
      case None
      with ends show ?thesis by simp
    next
      case (Some r)
      with quiet that show ?thesis by (cases r) simp_all
    qed
    have "(snd (validate w config) = Some (Returned True)) = (all_violations config = [])"
      using fo(2) b by (cases b) simp_all
    with fo show ?thesis by simp
  qed
  have second: "snd (validate w (YDict (AList.update (YStr ''tools'') (YList (YDict td # ts)) d)))
           = Some (Returned False)
         \<and> violations (fst (validate w
              (YDict (AList.update (YStr ''tools'') (YList (YDict td # ts)) d))))
           = [Tool_missing_name]"
    if valid: "snd (validate w (YDict d)) = Some (Returned True)"
      and noname: "map_of td (YStr ''name'') = None"
  proof -
    let ?d' = "AList.update (YStr ''tools'') (YList (YDict td # ts)) d"
    from valid have phases:
      "snd (check_required w (YDict d) required) = None"
      "snd (check_mode_override (YDict d)) = None"
      "snd (check_intelligence (YDict d)) = None"
      by (simp_all add: validate_True_iff)
    have tools: "check_tools (YDict ?d') = ret [Tools_count (Suc (length ts)), Tool_missing_name] False"
      by (simp add: check_tools_update check_tool_no_name [OF noname] andthen_def emit_def ret_def)
    have res: "snd (validate w (YDict ?d')) = Some (Returned False)"
      unfolding validate_def
      by (simp add: snd_andthen untouched_by_tools phases tools ret_def)
    have last: "last (fst (validate w (YDict ?d'))) = Tool_missing_name"
      unfolding validate_def
      by (simp add: fst_andthen snd_andthen untouched_by_tools phases tools ret_def)
    have "one_violation (validate w (YDict ?d'))"
      by (rule ov_validate)
    with res last show ?thesis
      by (simp add: one_violation_def)
  qed
  from first ordered second show ?thesis by blast
qed

theorem validate_reports_first_violation_only_witness:
  "snd (validate (\<lambda>v. 0) (YDict (AList.update (YStr ''tools'')
      (YList (YDict [(YStr ''permission'', YStr ''maybe'')] # []))
      [(YStr ''name'', YStr ''reviewer''), (YStr ''description'', YStr ''Reviews code''),
       (YStr ''prompt'', YStr ''You review code.'')]))) = Some (Returned False)
   \<and> violations (fst (validate (\<lambda>v. 0) (YDict (AList.update (YStr ''tools'')
      (YList (YDict [(YStr ''permission'', YStr ''maybe'')] # []))
      [(YStr ''name'', YStr ''reviewer''), (YStr ''description'', YStr ''Reviews code''),
       (YStr ''prompt'', YStr ''You review code.'')])))) = [Tool_missing_name]
   \<and> all_violations (YDict [(YStr ''name'', YStr ''reviewer''),
       (YStr ''description'', YStr ''Reviews code''),
       (YStr ''prompt'', YStr ''You review code.''),
       (YStr ''mode_override'', YStr ''fast''), (YStr ''intelligence'', YStr ''extreme''),
       (YStr ''tools'', YList [YDict [(YStr ''permission'', YStr ''maybe'')]])])
     = [Invalid_mode (YStr ''fast'') [''plan'', ''build'', ''review''],
        Invalid_intelligence (YStr ''extreme'') [''light'', ''medium'', ''hard''],
        Tool_missing_name, Invalid_permission YNone (YStr ''maybe'')]
   \<and> violations (fst (validate (\<lambda>v. 0) (YDict [(YStr ''name'', YStr ''reviewer''),
       (YStr ''description'', YStr ''Reviews code''),
       (YStr ''prompt'', YStr ''You review code.''),
       (YStr ''mode_override'', YStr ''fast''), (YStr ''intelligence'', YStr ''extreme''),
       (YStr ''tools'', YList [YDict [(YStr ''permission'', YStr ''maybe'')]])])))
     = [Invalid_mode (YStr ''fast'') [''plan'', ''build'', ''review'']]"
proof -
  let ?both = "YDict [(YStr ''name'', YStr ''reviewer''),
       (YStr ''description'', YStr ''Reviews code''),
       (YStr ''prompt'', YStr ''You review code.''),
       (YStr ''mode_override'', YStr ''fast''), (YStr ''intelligence'', YStr ''extreme''),
       (YStr ''tools'', YList [YDict [(YStr ''permission'', YStr ''maybe'')]])]"
  have valid: "snd (validate (\<lambda>v. 0) (YDict [(YStr ''name'', YStr ''reviewer''),
       (YStr ''description'', YStr ''Reviews code''),
       (YStr ''prompt'', YStr ''You review code.'')])) = Some (Returned True)"
    by (simp add: validate_defs)
  have noname: "map_of [(YStr ''permission'', YStr ''maybe'')] (YStr ''name'') = None"
    by simp
  have quiet: "\<forall>e. snd (validate (\<lambda>v. 0) ?both) \<noteq> Some (Raised e)"
    by (simp add: validate_defs)
  have every: "all_violations ?both
     = [Invalid_mode (YStr ''fast'') [''plan'', ''build'', ''review''],
        Invalid_intelligence (YStr ''extreme'') [''light'', ''medium'', ''hard''],
        Tool_missing_name, Invalid_permission YNone (YStr ''maybe'')]"
    by (simp add: all_violations_defs)
  note inst = validate_reports_first_violation_only [where w = "\<lambda>v. 0" and config = ?both
        and d = "[(YStr ''name'', YStr ''reviewer''), (YStr ''description'', YStr ''Reviews code''),
          (YStr ''prompt'', YStr ''You review code.'')]"
        and td = "[(YStr ''permission'', YStr ''maybe'')]" and ts = "[]"]
  from inst valid noname
  have scenario: "snd (validate (\<lambda>v. 0) (YDict (AList.update (YStr ''tools'')
      (YList (YDict [(YStr ''permission'', YStr ''maybe'')] # []))
      [(YStr ''name'', YStr ''reviewer''), (YStr ''description'', YStr ''Reviews code''),
       (YStr ''prompt'', YStr ''You review code.'')]))) = Some (Returned False)"
    "violations (fst (validate (\<lambda>v. 0) (YDict (AList.update (YStr ''tools'')
      (YList (YDict [(YStr ''permission'', YStr ''maybe'')] # []))
      [(YStr ''name'', YStr ''reviewer''), (YStr ''description'', YStr ''Reviews code''),
       (YStr ''prompt'', YStr ''You review code.'')])))) = [Tool_missing_name]"
    by blast+
  from inst quiet
  have "violations (fst (validate (\<lambda>v. 0) ?both)) = take 1 (all_violations ?both)"
    by blast
  then have reported: "violations (fst (validate (\<lambda>v. 0) ?both))
     = [Invalid_mode (YStr ''fast'') [''plan'', ''build'', ''review'']]"
    unfolding every by simp
  from scenario every reported show ?thesis
    by blast
qed

text \<open>
  The document of the scenario: \<open>tools: [{permission: "maybe"}]\<close>. Its complete list has two
  violations. The whole output of the script is shown: only the first of the two is
  reported, the invalid permission is never looked at.
\<close>

theorem validate_all_violations_counterexample:
  "all_violations (YDict [(YStr ''name'', YStr ''reviewer''),
       (YStr ''description'', YStr ''Reviews code''),
       (YStr ''prompt'', YStr ''You review code.''),
       (YStr ''tools'', YList [YDict [(YStr ''permission'', YStr ''maybe'')]])])
     = [Tool_missing_name, Invalid_permission YNone (YStr ''maybe'')]
   \<and> validate (\<lambda>v. 0) (YDict [(YStr ''name'', YStr ''reviewer''),
       (YStr ''description'', YStr ''Reviews code''),
       (YStr ''prompt'', YStr ''You review code.''),
       (YStr ''tools'', YList [YDict [(YStr ''permission'', YStr ''maybe'')]])])
   = ([Field_ok ''name'' (YStr ''reviewer'') False,
       Field_ok ''description'' (YStr ''Reviews code'') False,
       Field_ok ''prompt'' (YStr ''You review code.'') False,
       Tools_count 1, Tool_missing_name], Some (Returned False))
   \<and> violations (fst (validate (\<lambda>v. 0) (YDict [(YStr ''name'', YStr ''reviewer''),
       (YStr ''description'', YStr ''Reviews code''),
       (YStr ''prompt'', YStr ''You review code.''),
       (YStr ''tools'', YList [YDict [(YStr ''permission'', YStr ''maybe'')]])])))
     = [Tool_missing_name]"
  by (simp add: validate_defs all_violations_defs)

subsection \<open>Required fields\<close>

lemma check_field_string:
  assumes "map_of d (YStr g) = Some (YStr s)" and "s \<noteq> []"
  shows "check_field w (YDict d) g
     = emit [if 50 < length s then Field_ok g (YStr (take 50 s)) True else Field_ok g (YStr s) False]"
  using assms by (simp add: check_field_def on_value_def str_len_def)

lemma check_field_missing:
  assumes "map_of d (YStr f) = None \<or> (\<exists>v. map_of d (YStr f) = Some v \<and> \<not> py_truthy v)"
  shows "check_field w (YDict d) f = ret [Missing_required f] False"
  using assms by (auto simp: check_field_def on_value_def)

lemma check_required_append:
  "check_required w config (xs @ ys)
     = andthen (check_required w config xs) (check_required w config ys)"
  by (induction xs) (auto simp: andthen_def emit_def split: option.splits)

lemma check_required_strings:
  assumes "\<forall>g \<in> set fs. \<exists>s. map_of d (YStr g) = Some (YStr s) \<and> s \<noteq> []"
  shows "snd (check_required w (YDict d) fs) = None"
  using assms
proof (induction fs)
  case Nil
  show ?case by (simp add: emit_def)
next
  case (Cons g fs)
  then obtain s where "map_of d (YStr g) = Some (YStr s)" and "s \<noteq> []"
    by auto
  then have "snd (check_field w (YDict d) g) = None"
    by (simp add: check_field_string emit_def)
  with Cons show ?case
    by (simp add: snd_andthen)
qed

lemma missing_in_check_field:
  assumes "Missing_required f \<in> set (fst (check_field w config g))"
  shows "g = f \<and> (py_contains f config = Inr False
                  \<or> (\<exists>v. py_getitem config f = Inr v \<and> \<not> py_truthy v))"
  using assms
  by (auto simp: check_field_def on_value_def ret_def emit_def split: sum.splits if_splits)

lemma missing_in_check_required:
  assumes "Missing_required f \<in> set (fst (check_required w config fs))"
  shows "py_contains f config = Inr False \<or> (\<exists>v. py_getitem config f = Inr v \<and> \<not> py_truthy v)"
  using assms
proof (induction fs)
  case Nil
  then show ?case by (simp add: emit_def)
next
  case (Cons g fs)
  from Cons.prems have "Missing_required f \<in> set (fst (check_field w config g))
      \<or> Missing_required f \<in> set (fst (check_required w config fs))"
    using set_fst_andthen [of "check_field w config g" "check_required w config fs"] by auto
  then show ?case
    using Cons.IH missing_in_check_field by blast
qed

text \<open>
  C4, as the code has it. Let \<open>f\<close> be a required field of a mapping document whose earlier
  required fields hold non-empty strings. If \<open>f\<close> is absent, or present with a falsy value (the
  empty string, \<open>None\<close>, \<open>0\<close>, \<open>False\<close>, an empty list or dict), validation returns \<open>False\<close> and
  reports the one violation "Missing required field: f", the same line in both cases. A
  required field that holds a non-empty string, blank or not, is never reported.
\<close>

theorem required_field_absent_or_falsy:
  "(required = pre @ f # post \<longrightarrow>
      (\<forall>g \<in> set pre. \<exists>s. map_of d (YStr g) = Some (YStr s) \<and> s \<noteq> []) \<longrightarrow>
      (map_of d (YStr f) = None \<or> (\<exists>v. map_of d (YStr f) = Some v \<and> \<not> py_truthy v)) \<longrightarrow>
        snd (validate w (YDict d)) = Some (Returned False)
        \<and> violations (fst (validate w (YDict d))) = [Missing_required f])
   \<and> (map_of d (YStr f) = Some (YStr s) \<longrightarrow> s \<noteq> [] \<longrightarrow>
        Missing_required f \<notin> set (fst (validate w (YDict d))))"
proof -
  have first: "snd (validate w (YDict d)) = Some (Returned False)
        \<and> violations (fst (validate w (YDict d))) = [Missing_required f]"
    if split: "required = pre @ f # post"
      and strings: "\<forall>g \<in> set pre. \<exists>s. map_of d (YStr g) = Some (YStr s) \<and> s \<noteq> []"
      and bad: "map_of d (YStr f) = None \<or> (\<exists>v. map_of d (YStr f) = Some v \<and> \<not> py_truthy v)"
  proof -
    have pre: "snd (check_required w (YDict d) pre) = None"
      using strings by (rule check_required_strings)
    have here: "check_field w (YDict d) f = ret [Missing_required f] False"
      using bad by (rule check_field_missing)
    have req: "check_required w (YDict d) required
        = (fst (check_required w (YDict d) pre) @ [Missing_required f], Some (Returned False))"
      unfolding split check_required_append
      using pre by (simp add: here andthen_def ret_def)
    have res: "validate w (YDict d)
        = (fst (check_required w (YDict d) pre) @ [Missing_required f], Some (Returned False))"
      unfolding validate_def req by (simp add: andthen_def)
    have "one_violation (validate w (YDict d))"
      by (rule ov_validate)
    then show ?thesis
      unfolding res by (simp add: one_violation_def)
  qed
  have second: "Missing_required f \<notin> set (fst (validate w (YDict d)))"
    if val: "map_of d (YStr f) = Some (YStr s)" and ne: "s \<noteq> []"
  proof
    assume "Missing_required f \<in> set (fst (validate w (YDict d)))"
    then have "Missing_required f \<in> set (fst (check_required w (YDict d) required))"
      by (rule validate_required_lines) simp
    then have "py_contains f (YDict d) = Inr False
        \<or> (\<exists>v. py_getitem (YDict d) f = Inr v \<and> \<not> py_truthy v)"
      by (rule missing_in_check_required)
    with val ne show False by simp
  qed
  from first second show ?thesis by blast
qed

theorem required_field_absent_or_falsy_witness:
  "violations (fst (validate (\<lambda>v. 0)
      (YDict [(YStr ''name'', YStr ''reviewer''), (YStr ''description'', YStr []),
              (YStr ''prompt'', YStr ''You review code.'')])))
     = [Missing_required ''description'']
   \<and> violations (fst (validate (\<lambda>v. 0)
      (YDict [(YStr ''name'', YStr ''reviewer''),
              (YStr ''prompt'', YStr ''You review code.'')])))
     = [Missing_required ''description'']
   \<and> Missing_required ''name'' \<notin> set (fst (validate (\<lambda>v. 0)
      (YDict [(YStr ''name'', YStr ''   ''), (YStr ''description'', YStr []),
              (YStr ''prompt'', YStr ''You review code.'')])))"
proof -
  have split: "required = [''name''] @ ''description'' # [''prompt'']"
    by (simp add: required_def)
  have strings1: "\<forall>g \<in> set [''name'']. \<exists>s. map_of [(YStr ''name'', YStr ''reviewer''),
      (YStr ''description'', YStr []), (YStr ''prompt'', YStr ''You review code.'')] (YStr g)
        = Some (YStr s) \<and> s \<noteq> []"
    by simp
  have bad1: "map_of [(YStr ''name'', YStr ''reviewer''),
      (YStr ''description'', YStr []), (YStr ''prompt'', YStr ''You review code.'')]
        (YStr ''description'') = None
      \<or> (\<exists>v. map_of [(YStr ''name'', YStr ''reviewer''),
      (YStr ''description'', YStr []), (YStr ''prompt'', YStr ''You review code.'')]
        (YStr ''description'') = Some v \<and> \<not> py_truthy v)"
    by simp
  have strings2: "\<forall>g \<in> set [''name'']. \<exists>s. map_of [(YStr ''name'', YStr ''reviewer''),
      (YStr ''prompt'', YStr ''You review code.'')] (YStr g) = Some (YStr s) \<and> s \<noteq> []"
    by simp
  have bad2: "map_of [(YStr ''name'', YStr ''reviewer''),
      (YStr ''prompt'', YStr ''You review code.'')] (YStr ''description'') = None
      \<or> (\<exists>v. map_of [(YStr ''name'', YStr ''reviewer''),
      (YStr ''prompt'', YStr ''You review code.'')] (YStr ''description'') = Some v
         \<and> \<not> py_truthy v)"
    by simp
  have blank: "map_of [(YStr ''name'', YStr ''   ''), (YStr ''description'', YStr []),
      (YStr ''prompt'', YStr ''You review code.'')] (YStr ''name'') = Some (YStr ''   '')"
    by simp
  have ne: "''   '' \<noteq> []"
    by simp
  show ?thesis
    using
      required_field_absent_or_falsy [of "[''name'']" "''description''" "[''prompt'']"
        "[(YStr ''name'', YStr ''reviewer''), (YStr ''description'', YStr []),
          (YStr ''prompt'', YStr ''You review code.'')]" "\<lambda>v. 0" "[]"]
      required_field_absent_or_falsy [of "[''name'']" "''description''" "[''prompt'']"
        "[(YStr ''name'', YStr ''reviewer''), (YStr ''prompt'', YStr ''You review code.'')]"
        "\<lambda>v. 0" "[]"]
      required_field_absent_or_falsy [of "[]" "''name''" "[]"
        "[(YStr ''name'', YStr ''   ''), (YStr ''description'', YStr []),
          (YStr ''prompt'', YStr ''You review code.'')]" "\<lambda>v. 0" "''   ''"]
      split strings1 bad1 strings2 bad2 blank ne
    by blast
qed

text \<open>
  A name of three spaces is accepted, and the output for an empty name is the output for no
  name at all.
\<close>

theorem blank_required_field_counterexample:
  "validate (\<lambda>v. 0)
      (YDict [(YStr ''name'', YStr ''   ''), (YStr ''description'', YStr ''Reviews code''),
              (YStr ''prompt'', YStr ''You review code.'')])
     = ([Field_ok ''name'' (YStr ''   '') False,
         Field_ok ''description'' (YStr ''Reviews code'') False,
         Field_ok ''prompt'' (YStr ''You review code.'') False,
         Config_valid], Some (Returned True))
   \<and> fst (validate (\<lambda>v. 0)
      (YDict [(YStr ''name'', YStr []), (YStr ''description'', YStr ''Reviews code''),
              (YStr ''prompt'', YStr ''You review code.'')]))
     = fst (validate (\<lambda>v. 0)
      (YDict [(YStr ''description'', YStr ''Reviews code''),
              (YStr ''prompt'', YStr ''You review code.'')]))"
  by (simp add: validate_defs)

subsection \<open>\<open>mode_override\<close>\<close>

lemma getitem_contains: "py_getitem config k = Inr v \<Longrightarrow> py_contains k config = Inr True"
  by (cases config) (auto split: option.splits)

lemma check_mode_override_invalid:
  assumes "py_getitem config ''mode_override'' = Inr v" and "v \<notin> set (map YStr valid_modes)"
  shows "check_mode_override config = ret [Invalid_mode v valid_modes] False"
  using assms getitem_contains [OF assms(1)]
  by (simp add: check_mode_override_def on_value_def)

lemma invalid_mode_in_check:
  assumes "Invalid_mode v a \<in> set (fst (check_mode_override config))"
  shows "py_getitem config ''mode_override'' = Inr v \<and> v \<notin> set (map YStr valid_modes)"
  using assms
  by (auto simp: check_mode_override_def on_value_def ret_def emit_def
      split: sum.splits if_splits)

text \<open>
  C6, as the code has it. For a document that passes the required-field checks (for one whose
  \<open>name\<close>, \<open>description\<close> and \<open>prompt\<close> are non-empty strings, see \<open>check_required_strings\<close>):
  if \<open>mode_override\<close> is present with a value outside \<open>plan\<close>, \<open>build\<close>, \<open>review\<close>, validation
  returns \<open>False\<close> and reports the one violation that cites the value and the allowed list.
  For every document in which \<open>mode_override\<close> is absent or one of the three, no
  \<open>mode_override\<close> violation is printed.
\<close>

theorem mode_override_checked:
  "(snd (check_required w config required) = None \<longrightarrow>
      py_getitem config ''mode_override'' = Inr v \<longrightarrow> v \<notin> set (map YStr valid_modes) \<longrightarrow>
        snd (validate w config) = Some (Returned False)
        \<and> violations (fst (validate w config)) = [Invalid_mode v valid_modes])
   \<and> ((\<forall>u. py_getitem config ''mode_override'' = Inr u \<longrightarrow> u \<in> set (map YStr valid_modes)) \<longrightarrow>
        (\<forall>u a. Invalid_mode u a \<notin> set (fst (validate w config))))"
proof -
  have first: "snd (validate w config) = Some (Returned False)
        \<and> violations (fst (validate w config)) = [Invalid_mode v valid_modes]"
    if req: "snd (check_required w config required) = None"
      and val: "py_getitem config ''mode_override'' = Inr v"
      and bad: "v \<notin> set (map YStr valid_modes)"
  proof -
    have mode: "check_mode_override config = ret [Invalid_mode v valid_modes] False"
      using val bad by (rule check_mode_override_invalid)
    have res: "validate w config
        = (fst (check_required w config required) @ [Invalid_mode v valid_modes],
           Some (Returned False))"
      unfolding validate_def mode
      using req by (simp add: andthen_def ret_def)
    have "one_violation (validate w config)"
      by (rule ov_validate)
    then show ?thesis
      unfolding res by (simp add: one_violation_def)
  qed
  have second: "Invalid_mode u a \<notin> set (fst (validate w config))"
    if ok: "\<forall>u. py_getitem config ''mode_override'' = Inr u \<longrightarrow> u \<in> set (map YStr valid_modes)"
    for u a
  proof
    assume "Invalid_mode u a \<in> set (fst (validate w config))"
    then have "Invalid_mode u a \<in> set (fst (check_mode_override config))"
      by (rule validate_mode_lines) simp
    then have "py_getitem config ''mode_override'' = Inr u \<and> u \<notin> set (map YStr valid_modes)"
      by (rule invalid_mode_in_check)
    with ok show False by blast
  qed
  from first second show ?thesis by blast
qed

theorem mode_override_checked_witness:
  "violations (fst (validate (\<lambda>v. 0)
      (YDict [(YStr ''name'', YStr ''reviewer''), (YStr ''description'', YStr ''Reviews code''),
              (YStr ''prompt'', YStr ''You review code.''),
              (YStr ''mode_override'', YStr ''fast'')])))
     = [Invalid_mode (YStr ''fast'') [''plan'', ''build'', ''review'']]
   \<and> (\<forall>u a. Invalid_mode u a \<notin> set (fst (validate (\<lambda>v. 0)
      (YDict [(YStr ''name'', YStr ''reviewer''), (YStr ''description'', YStr ''Reviews code''),
              (YStr ''prompt'', YStr ''You review code.''),
              (YStr ''mode_override'', YStr ''review'')]))))
   \<and> (\<forall>u a. Invalid_mode u a \<notin> set (fst (validate (\<lambda>v. 0)
      (YDict [(YStr ''name'', YStr ''reviewer''), (YStr ''description'', YStr ''Reviews code''),
              (YStr ''prompt'', YStr ''You review code.'')]))))"
proof -
  have req: "snd (check_required (\<lambda>v. 0)
      (YDict [(YStr ''name'', YStr ''reviewer''), (YStr ''description'', YStr ''Reviews code''),
              (YStr ''prompt'', YStr ''You review code.''),
              (YStr ''mode_override'', YStr ''fast'')]) required) = None"
    by (simp add: validate_defs)
  have val: "py_getitem
      (YDict [(YStr ''name'', YStr ''reviewer''), (YStr ''description'', YStr ''Reviews code''),
              (YStr ''prompt'', YStr ''You review code.''),
              (YStr ''mode_override'', YStr ''fast'')]) ''mode_override'' = Inr (YStr ''fast'')"
    by simp
  have bad: "YStr ''fast'' \<notin> set (map YStr valid_modes)"
    by (simp add: valid_modes_def)
  have ok1: "\<forall>u. py_getitem
      (YDict [(YStr ''name'', YStr ''reviewer''), (YStr ''description'', YStr ''Reviews code''),
              (YStr ''prompt'', YStr ''You review code.''),
              (YStr ''mode_override'', YStr ''review'')]) ''mode_override'' = Inr u
        \<longrightarrow> u \<in> set (map YStr valid_modes)"
    by (simp add: valid_modes_def)
  have ok2: "\<forall>u. py_getitem
      (YDict [(YStr ''name'', YStr ''reviewer''), (YStr ''description'', YStr ''Reviews code''),
              (YStr ''prompt'', YStr ''You review code.'')]) ''mode_override'' = Inr u
        \<longrightarrow> u \<in> set (map YStr valid_modes)"
    by simp
  have modes: "valid_modes = [''plan'', ''build'', ''review'']"
    by (simp add: valid_modes_def)
  show ?thesis
    using
      mode_override_checked [of "\<lambda>v. 0"
        "YDict [(YStr ''name'', YStr ''reviewer''), (YStr ''description'', YStr ''Reviews code''),
              (YStr ''prompt'', YStr ''You review code.''),
              (YStr ''mode_override'', YStr ''fast'')]" "YStr ''fast''"]
      mode_override_checked [of "\<lambda>v. 0"
        "YDict [(YStr ''name'', YStr ''reviewer''), (YStr ''description'', YStr ''Reviews code''),
              (YStr ''prompt'', YStr ''You review code.''),
              (YStr ''mode_override'', YStr ''review'')]" YNone]
      mode_override_checked [of "\<lambda>v. 0"
        "YDict [(YStr ''name'', YStr ''reviewer''), (YStr ''description'', YStr ''Reviews code''),
              (YStr ''prompt'', YStr ''You review code.'')]" YNone]
      req val bad ok1 ok2
    unfolding modes by blast
qed

text \<open>
  Without a \<open>name\<close> the check of \<open>mode_override\<close> is never reached: the missing field is all
  that is reported.
\<close>

theorem invalid_mode_unreported_counterexample:
  "validate (\<lambda>v. 0)
      (YDict [(YStr ''description'', YStr ''Reviews code''),
              (YStr ''prompt'', YStr ''You review code.''),
              (YStr ''mode_override'', YStr ''fast'')])
     = ([Missing_required ''name''], Some (Returned False))"
  by (simp add: validate_defs)

subsection \<open>The loop of \<open>main\<close>\<close>

lemma validate_ends: "snd (validate w config) \<noteq> None"
  by (simp add: validate_def snd_andthen ret_def split: option.splits)

lemma verify_loads:
  "verify_yaml_config w (p, Loads config)
     = ([Rule, Verifying p, Rule] @ fst (validate w config), snd (validate w config))"
  by (simp add: verify_yaml_config_def andthen_def emit_def)

lemma verify_ends: "snd (verify_yaml_config w file) \<noteq> None"
  using validate_ends
  by (cases "snd file") (auto simp: verify_yaml_config_def andthen_def emit_def)

lemma scan_all_return:
  assumes "\<forall>f \<in> set files. \<exists>b. snd (verify_yaml_config w f) = Some (Returned b)"
  shows "scan w files all_valid
     = (concat (map (\<lambda>f. fst (verify_yaml_config w f)) files),
        Inr (all_valid \<and> (\<forall>f \<in> set files. snd (verify_yaml_config w f) = Some (Returned True))))"
  using assms
proof (induction files arbitrary: all_valid)
  case Nil
  show ?case by simp
next
  case (Cons f files)
  then obtain b where b: "snd (verify_yaml_config w f) = Some (Returned b)"
    by auto
  from Cons.prems have rest: "\<forall>g \<in> set files. \<exists>b. snd (verify_yaml_config w g) = Some (Returned b)"
    by simp
  show ?case
    using b Cons.IH [OF rest] by (cases b) auto
qed

lemma scan_raise:
  assumes "\<forall>f \<in> set pre. \<exists>b. snd (verify_yaml_config w f) = Some (Returned b)"
    and "snd (verify_yaml_config w bad) = Some (Raised e)"
  shows "scan w (pre @ bad # post) all_valid
     = (concat (map (\<lambda>f. fst (verify_yaml_config w f)) pre) @ fst (verify_yaml_config w bad),
        Inl e)"
  using assms(1)
proof (induction pre arbitrary: all_valid)
  case Nil
  show ?case using assms(2) by simp
next
  case (Cons f pre)
  then obtain b where b: "snd (verify_yaml_config w f) = Some (Returned b)"
    by auto
  from Cons.prems have rest: "\<forall>g \<in> set pre. \<exists>b. snd (verify_yaml_config w g) = Some (Returned b)"
    by simp
  show ?case
    using b Cons.IH [OF rest] by (cases b) auto
qed

lemmas main_defs = verify_yaml_config_def main_def yaml_files_def

lemma verify_header: "Verifying (fst file) \<in> set (fst (verify_yaml_config w file))"
  by (simp add: verify_yaml_config_def andthen_def emit_def)

lemma validate_stage:
  assumes "l \<in> set (fst (validate w config))"
  shows "stage_of l \<noteq> Driver"
  using validate_lines [OF assms]
    lines_fromD [OF lf_check_required, of l w config required]
    lines_fromD [OF lf_check_mode_override, of l config]
    lines_fromD [OF lf_check_intelligence, of l config]
    lines_fromD [OF lf_check_tools, of l config]
    lines_fromD [OF lf_check_parameters, of l config]
    lines_fromD [OF lf_check_other_fields, of l config "[''tags'', ''file_patterns'', ''metadata'']"]
  by (auto simp del: check_other_fields.simps)

lemma verify_stage:
  assumes "l \<in> set (fst (verify_yaml_config w file))"
  shows "stage_of l \<noteq> Driver"
  using assms validate_stage [of l w]
  by (cases "snd file") (auto simp: verify_yaml_config_def andthen_def emit_def)

lemma main_all_return:
  assumes found: "yaml_files entries \<noteq> []"
    and returns: "\<forall>f \<in> set (yaml_files entries). \<exists>b. snd (verify_yaml_config w f) = Some (Returned b)"
  shows "snd (main w (Some entries)) = None"
    and "\<forall>f \<in> set (yaml_files entries). Verifying (fst f) \<in> set (fst (main w (Some entries)))"
    and "(Some_errors \<in> set (fst (main w (Some entries))))
       = (\<exists>f \<in> set (yaml_files entries). snd (verify_yaml_config w f) \<noteq> Some (Returned True))"
proof -
  let ?out = "concat (map (\<lambda>f. fst (verify_yaml_config w f)) (yaml_files entries))"
  let ?ok = "\<forall>f \<in> set (yaml_files entries). snd (verify_yaml_config w f) = Some (Returned True)"
  have sc: "scan w (yaml_files entries) True = (?out, Inr ?ok)"
    using returns by (rule scan_all_return [where all_valid = True, simplified])
  have m: "main w (Some entries)
     = (Found (length (yaml_files entries)) # ?out @ Rule #
          (if ?ok then [All_valid,
             Note ''The YAML loader implementation will properly parse these configs.'',
             Note ''The Rust implementation supports:'',
             Note ''Loading from ~/.agcodex/agents/ (global)'',
             Note ''Loading from ./.agcodex/agents/ (project)'',
             Note ''Project configs override global configs'',
             Note ''Both .yaml and .yml extensions'',
             Note ''Mixed TOML and YAML loading'']
           else [Some_errors]), None)"
    using found by (simp add: main_def Let_def sc andthen_def emit_def)
  show "snd (main w (Some entries)) = None"
    by (simp add: m)
  show "\<forall>f \<in> set (yaml_files entries). Verifying (fst f) \<in> set (fst (main w (Some entries)))"
    using verify_header [of _ w] by (auto simp: m)
  have drv: "Some_errors \<notin> set ?out"
  proof
    assume "Some_errors \<in> set ?out"
    then obtain f where "Some_errors \<in> set (fst (verify_yaml_config w f))"
      by auto
    then show False
      using verify_stage [of Some_errors w f] by simp
  qed
  show "(Some_errors \<in> set (fst (main w (Some entries))))
       = (\<exists>f \<in> set (yaml_files entries). snd (verify_yaml_config w f) \<noteq> Some (Returned True))"
    using drv by (auto simp: m)
qed

text \<open>
  C3, as the code has it. A file whose validation fails makes \<open>verify_yaml_config\<close> return
  \<open>False\<close> (every reported violation ends in \<open>return False\<close>): its lines are printed, the
  flag \<open>all_valid\<close> is cleared, and the loop goes on to the remaining files. So when no file
  raises, the loop prints the output of every file in order and ends with the flag that tells
  whether all returned \<open>True\<close>, and \<open>main\<close> runs to its end, having verified every
  discovered file and printing "Some configurations have errors" exactly when some file was
  not valid. An exception is caught nowhere: a file that cannot be opened
  or parsed, or whose document makes a check raise, ends the loop with that exception, and no
  later file is verified.
\<close>

theorem scan_continues_unless_raise:
  "((\<forall>f \<in> set files. \<exists>b. snd (verify_yaml_config w f) = Some (Returned b)) \<longrightarrow>
      scan w files True
        = (concat (map (\<lambda>f. fst (verify_yaml_config w f)) files),
           Inr (\<forall>f \<in> set files. snd (verify_yaml_config w f) = Some (Returned True))))
   \<and> ((\<forall>f \<in> set pre. \<exists>b. snd (verify_yaml_config w f) = Some (Returned b)) \<longrightarrow>
      snd (verify_yaml_config w bad) = Some (Raised e) \<longrightarrow>
      scan w (pre @ bad # post) True
        = (concat (map (\<lambda>f. fst (verify_yaml_config w f)) pre) @ fst (verify_yaml_config w bad),
           Inl e))
   \<and> snd (verify_yaml_config w (p, Unreadable)) = Some (Raised OSError)
   \<and> snd (verify_yaml_config w (p, Malformed)) = Some (Raised YAMLError)
   \<and> snd (verify_yaml_config w (p, Loads config)) = snd (validate w config)
   \<and> (violations (fst (validate w config)) \<noteq> [] \<longrightarrow>
        snd (validate w config) = Some (Returned False))
   \<and> (yaml_files entries \<noteq> [] \<longrightarrow>
      (\<forall>f \<in> set (yaml_files entries). \<exists>b. snd (verify_yaml_config w f) = Some (Returned b)) \<longrightarrow>
        snd (main w (Some entries)) = None
        \<and> (\<forall>f \<in> set (yaml_files entries). Verifying (fst f) \<in> set (fst (main w (Some entries))))
        \<and> (Some_errors \<in> set (fst (main w (Some entries))))
          = (\<exists>f \<in> set (yaml_files entries).
               snd (verify_yaml_config w f) \<noteq> Some (Returned True)))"
proof -
  have viol: "snd (validate w config) = Some (Returned False)"
    if "violations (fst (validate w config)) \<noteq> []"
    using that ov_validate [of w config] by (auto simp: one_violation_def split: if_splits)
  have srcs: "snd (verify_yaml_config w (p, Unreadable)) = Some (Raised OSError)"
    "snd (verify_yaml_config w (p, Malformed)) = Some (Raised YAMLError)"
    "snd (verify_yaml_config w (p, Loads config)) = snd (validate w config)"
    by (simp_all add: verify_yaml_config_def andthen_def emit_def)
  have all_return: "scan w files True
        = (concat (map (\<lambda>f. fst (verify_yaml_config w f)) files),
           Inr (\<forall>f \<in> set files. snd (verify_yaml_config w f) = Some (Returned True)))"
    if "\<forall>f \<in> set files. \<exists>b. snd (verify_yaml_config w f) = Some (Returned b)"
    using scan_all_return [OF that, of True] by simp
  have raise: "scan w (pre @ bad # post) True
        = (concat (map (\<lambda>f. fst (verify_yaml_config w f)) pre) @ fst (verify_yaml_config w bad),
           Inl e)"
    if "\<forall>f \<in> set pre. \<exists>b. snd (verify_yaml_config w f) = Some (Returned b)"
      and "snd (verify_yaml_config w bad) = Some (Raised e)"
    using that by (rule scan_raise)
  have whole: "snd (main w (Some entries)) = None
        \<and> (\<forall>f \<in> set (yaml_files entries). Verifying (fst f) \<in> set (fst (main w (Some entries))))
        \<and> (Some_errors \<in> set (fst (main w (Some entries))))
          = (\<exists>f \<in> set (yaml_files entries).
               snd (verify_yaml_config w f) \<noteq> Some (Returned True))"
    if "yaml_files entries \<noteq> []"
      and "\<forall>f \<in> set (yaml_files entries). \<exists>b. snd (verify_yaml_config w f) = Some (Returned b)"
    using main_all_return [OF that] by blast
  from all_return raise srcs viol whole show ?thesis
    by blast
qed

theorem scan_continues_unless_raise_witness:
  "scan (\<lambda>v. 0) [(''a.yaml'', Loads (YDict [(YStr ''name'', YStr ''reviewer'')])),
                  (''b.yaml'', Loads (YDict [(YStr ''name'', YStr ''reviewer''),
                     (YStr ''description'', YStr ''Reviews code''),
                     (YStr ''prompt'', YStr ''You review code.'')]))] True
    = ([Rule, Verifying ''a.yaml'', Rule, Field_ok ''name'' (YStr ''reviewer'') False,
        Missing_required ''description'',
        Rule, Verifying ''b.yaml'', Rule, Field_ok ''name'' (YStr ''reviewer'') False,
        Field_ok ''description'' (YStr ''Reviews code'') False,
        Field_ok ''prompt'' (YStr ''You review code.'') False, Config_valid], Inr False)
   \<and> scan (\<lambda>v. 0) ([] @ (''a.yaml'', Loads YNone) #
                  [(''b.yaml'', Loads (YDict [(YStr ''name'', YStr ''reviewer''),
                     (YStr ''description'', YStr ''Reviews code''),
                     (YStr ''prompt'', YStr ''You review code.'')]))]) True
    = ([Rule, Verifying ''a.yaml'', Rule], Inl TypeError)
   \<and> snd (main (\<lambda>v. 0) (Some [(''a.yaml'', Loads (YDict [(YStr ''name'', YStr ''reviewer'')])),
                  (''b.yaml'', Loads (YDict [(YStr ''name'', YStr ''reviewer''),
                     (YStr ''description'', YStr ''Reviews code''),
                     (YStr ''prompt'', YStr ''You review code.'')]))])) = None
   \<and> Some_errors \<in> set (fst (main (\<lambda>v. 0)
                 (Some [(''a.yaml'', Loads (YDict [(YStr ''name'', YStr ''reviewer'')])),
                  (''b.yaml'', Loads (YDict [(YStr ''name'', YStr ''reviewer''),
                     (YStr ''description'', YStr ''Reviews code''),
                     (YStr ''prompt'', YStr ''You review code.'')]))])))"
proof -
  have found: "yaml_files [(''a.yaml'', Loads (YDict [(YStr ''name'', YStr ''reviewer'')])),
                  (''b.yaml'', Loads (YDict [(YStr ''name'', YStr ''reviewer''),
                     (YStr ''description'', YStr ''Reviews code''),
                     (YStr ''prompt'', YStr ''You review code.'')]))]
      = [(''a.yaml'', Loads (YDict [(YStr ''name'', YStr ''reviewer'')])),
                  (''b.yaml'', Loads (YDict [(YStr ''name'', YStr ''reviewer''),
                     (YStr ''description'', YStr ''Reviews code''),
                     (YStr ''prompt'', YStr ''You review code.'')]))]"
    by (simp add: yaml_files_def suffix_to_prefix)
  have fa: "verify_yaml_config (\<lambda>v. 0) (''a.yaml'', Loads (YDict [(YStr ''name'', YStr ''reviewer'')]))
     = ([Rule, Verifying ''a.yaml'', Rule, Field_ok ''name'' (YStr ''reviewer'') False,
         Missing_required ''description''], Some (Returned False))"
    by (simp add: main_defs validate_defs)
  have fb: "verify_yaml_config (\<lambda>v. 0) (''b.yaml'', Loads (YDict [(YStr ''name'', YStr ''reviewer''),
                     (YStr ''description'', YStr ''Reviews code''),
                     (YStr ''prompt'', YStr ''You review code.'')]))
     = ([Rule, Verifying ''b.yaml'', Rule, Field_ok ''name'' (YStr ''reviewer'') False,
        Field_ok ''description'' (YStr ''Reviews code'') False,
        Field_ok ''prompt'' (YStr ''You review code.'') False, Config_valid], Some (Returned True))"
    by (simp add: main_defs validate_defs)
  have fc: "verify_yaml_config (\<lambda>v. 0) (''a.yaml'', Loads YNone)
     = ([Rule, Verifying ''a.yaml'', Rule], Some (Raised TypeError))"
    by (simp add: main_defs validate_defs)
  have all: "\<forall>f \<in> set [(''a.yaml'', Loads (YDict [(YStr ''name'', YStr ''reviewer'')])),
                  (''b.yaml'', Loads (YDict [(YStr ''name'', YStr ''reviewer''),
                     (YStr ''description'', YStr ''Reviews code''),
                     (YStr ''prompt'', YStr ''You review code.'')]))].
      \<exists>b. snd (verify_yaml_config (\<lambda>v. 0) f) = Some (Returned b)"
    by (auto simp: fa fb)
  have none: "\<forall>f \<in> set ([] :: (string \<times> source) list).
      \<exists>b. snd (verify_yaml_config (\<lambda>v. 0) f) = Some (Returned b)"
    by simp
  have raised: "snd (verify_yaml_config (\<lambda>v. 0) (''a.yaml'', Loads YNone)) = Some (Raised TypeError)"
    by (simp add: fc)
  show ?thesis
    using scan_continues_unless_raise [where w = "\<lambda>v. 0"
        and files = "[(''a.yaml'', Loads (YDict [(YStr ''name'', YStr ''reviewer'')])),
                  (''b.yaml'', Loads (YDict [(YStr ''name'', YStr ''reviewer''),
                     (YStr ''description'', YStr ''Reviews code''),
                     (YStr ''prompt'', YStr ''You review code.'')]))]"
        and pre = "[]" and bad = "(''a.yaml'', Loads YNone)" and e = TypeError
        and post = "[(''b.yaml'', Loads (YDict [(YStr ''name'', YStr ''reviewer''),
                     (YStr ''description'', YStr ''Reviews code''),
                     (YStr ''prompt'', YStr ''You review code.'')]))]"
        and entries = "[(''a.yaml'', Loads (YDict [(YStr ''name'', YStr ''reviewer'')])),
                  (''b.yaml'', Loads (YDict [(YStr ''name'', YStr ''reviewer''),
                     (YStr ''description'', YStr ''Reviews code''),
                     (YStr ''prompt'', YStr ''You review code.'')]))]"
        and p = "''a.yaml''" and config = YNone]
      all none raised
    unfolding found
    by (simp add: fa fb fc validate_defs)
qed

text \<open>
  A file that fails to parse comes first: \<open>main\<close> ends with the parser's exception and the
  valid file after it is never verified.
\<close>

theorem parse_error_halts_scan_counterexample:
  "main (\<lambda>v. 0) (Some [(''a.yaml'', Malformed),
                  (''b.yaml'', Loads (YDict [(YStr ''name'', YStr ''reviewer''),
                     (YStr ''description'', YStr ''Reviews code''),
                     (YStr ''prompt'', YStr ''You review code.'')]))])
     = ([Found 2, Rule, Verifying ''a.yaml'', Rule], Some (Raised YAMLError))"
  by (simp add: main_defs validate_defs suffix_to_prefix)

subsection \<open>Discovery\<close>

lemma toml_not_yaml: "suffix ''.toml'' n \<Longrightarrow> \<not> suffix ''.yaml'' n \<and> \<not> suffix ''.yml'' n"
  by (auto simp: suffix_to_prefix prefix_def)

lemma yaml_not_yml: "suffix ''.yaml'' n \<Longrightarrow> \<not> suffix ''.yml'' n"
  by (auto simp: suffix_to_prefix prefix_def)

lemma scan_reaches:
  assumes "\<forall>g \<in> set pre. \<exists>b. snd (verify_yaml_config w g) = Some (Returned b)"
  shows "\<exists>rest. fst (scan w (pre @ reached # post) all_valid)
     = concat (map (\<lambda>g. fst (verify_yaml_config w g)) pre) @ fst (verify_yaml_config w reached) @ rest"
  using assms
proof (induction pre arbitrary: all_valid)
  case Nil
  show ?case
    by (auto split: option.splits outcome.splits prod.splits)
next
  case (Cons g pre)
  then obtain b where b: "snd (verify_yaml_config w g) = Some (Returned b)"
    by auto
  from Cons.prems have rest: "\<forall>h \<in> set pre. \<exists>b. snd (verify_yaml_config w h) = Some (Returned b)"
    by simp
  from Cons.IH [OF rest, of "if \<not> b then False else all_valid"]
  obtain more where "fst (scan w (pre @ reached # post) (if \<not> b then False else all_valid))
     = concat (map (\<lambda>g. fst (verify_yaml_config w g)) pre) @ fst (verify_yaml_config w reached) @ more"
    by blast
  then show ?case
    using b by (auto split: prod.splits)
qed

lemma main_log:
  assumes "yaml_files entries \<noteq> []"
  shows "\<exists>more. fst (main w (Some entries))
     = Found (length (yaml_files entries)) # fst (scan w (yaml_files entries) True) @ more"
  using assms
  by (auto simp: main_def Let_def andthen_def emit_def split: prod.splits sum.splits)

text \<open>
  C5, as the code has it. The script discovers the entries whose name ends in \<open>.yaml\<close>, in
  directory order, followed by those whose name ends in \<open>.yml\<close>: exactly these, each once.
  An entry whose name ends in \<open>.toml\<close> is never discovered, and a directory of \<open>.toml\<close>
  files only is reported as holding no YAML files. There is one loader: every discovered
  file that the loop reaches (no file before it having raised) is handed to
  \<open>verify_yaml_config\<close>, whatever its extension, in the order of discovery.
\<close>

theorem yaml_files_extensions:
  "yaml_files entries
     = filter (\<lambda>f. suffix ''.yaml'' (fst f)) entries @ filter (\<lambda>f. suffix ''.yml'' (fst f)) entries
   \<and> set (yaml_files entries)
     = {f \<in> set entries. suffix ''.yaml'' (fst f) \<or> suffix ''.yml'' (fst f)}
   \<and> (distinct entries \<longrightarrow> distinct (yaml_files entries))
   \<and> (suffix ''.toml'' path \<longrightarrow> (path, src) \<notin> set (yaml_files entries))
   \<and> ((\<forall>f \<in> set entries. suffix ''.toml'' (fst f)) \<longrightarrow>
        main w (Some entries) = ret [No_yaml_files] ())
   \<and> (yaml_files entries = pre @ reached # post \<longrightarrow>
      (\<forall>g \<in> set pre. \<exists>b. snd (verify_yaml_config w g) = Some (Returned b)) \<longrightarrow>
        (\<exists>rest. fst (main w (Some entries))
           = Found (length (yaml_files entries))
             # concat (map (\<lambda>g. fst (verify_yaml_config w g)) pre)
             @ fst (verify_yaml_config w reached) @ rest))"
proof -
  have order: "yaml_files entries
     = filter (\<lambda>f. suffix ''.yaml'' (fst f)) entries @ filter (\<lambda>f. suffix ''.yml'' (fst f)) entries"
    by (simp add: yaml_files_def)
  have members: "set (yaml_files entries)
     = {f \<in> set entries. suffix ''.yaml'' (fst f) \<or> suffix ''.yml'' (fst f)}"
    by (auto simp: yaml_files_def)
  have once: "distinct (yaml_files entries)" if "distinct entries"
    using that yaml_not_yml by (auto simp: yaml_files_def)
  have toml: "(path, src) \<notin> set (yaml_files entries)" if "suffix ''.toml'' path"
    using toml_not_yaml [OF that] by (simp add: members)
  have only_toml: "main w (Some entries) = ret [No_yaml_files] ()"
    if all: "\<forall>f \<in> set entries. suffix ''.toml'' (fst f)"
  proof -
    have "set (yaml_files entries) = {}"
      unfolding members using all toml_not_yaml by blast
    then have "yaml_files entries = []"
      by simp
    then show ?thesis
      by (simp add: main_def andthen_def emit_def ret_def)
  qed
  have handed: "\<exists>rest. fst (main w (Some entries))
           = Found (length (yaml_files entries))
             # concat (map (\<lambda>g. fst (verify_yaml_config w g)) pre)
             @ fst (verify_yaml_config w reached) @ rest"
    if split: "yaml_files entries = pre @ reached # post"
      and returns: "\<forall>g \<in> set pre. \<exists>b. snd (verify_yaml_config w g) = Some (Returned b)"
  proof -
    from split have "yaml_files entries \<noteq> []"
      by simp
    then obtain more where m: "fst (main w (Some entries))
       = Found (length (yaml_files entries)) # fst (scan w (yaml_files entries) True) @ more"
      using main_log by blast
    from scan_reaches [OF returns, of reached post True]
    obtain rest where "fst (scan w (pre @ reached # post) True)
       = concat (map (\<lambda>g. fst (verify_yaml_config w g)) pre) @ fst (verify_yaml_config w reached) @ rest"
      by blast
    then have "fst (main w (Some entries))
       = Found (length (yaml_files entries))
         # concat (map (\<lambda>g. fst (verify_yaml_config w g)) pre)
         @ fst (verify_yaml_config w reached) @ (rest @ more)"
      unfolding m split by simp
    then show ?thesis by blast
  qed
  from order members once toml only_toml handed show ?thesis by blast
qed

theorem yaml_files_extensions_witness:
  "yaml_files [(''a.yml'', Malformed), (''b.toml'', Malformed),
               (''c.yaml'', Loads (YDict [(YStr ''name'', YStr ''reviewer''),
                  (YStr ''description'', YStr ''Reviews code''),
                  (YStr ''prompt'', YStr ''You review code.'')])),
               (''d.txt'', Malformed)]
     = [] @ (''c.yaml'', Loads (YDict [(YStr ''name'', YStr ''reviewer''),
                  (YStr ''description'', YStr ''Reviews code''),
                  (YStr ''prompt'', YStr ''You review code.'')])) # [(''a.yml'', Malformed)]
   \<and> (''b.toml'', Malformed) \<notin> set (yaml_files [(''a.yml'', Malformed), (''b.toml'', Malformed),
               (''c.yaml'', Loads (YDict [(YStr ''name'', YStr ''reviewer''),
                  (YStr ''description'', YStr ''Reviews code''),
                  (YStr ''prompt'', YStr ''You review code.'')])),
               (''d.txt'', Malformed)])
   \<and> main (\<lambda>v. 0) (Some [(''b.toml'', Malformed)]) = ([No_yaml_files], Some (Returned ()))
   \<and> main (\<lambda>v. 0) (Some [(''a.yml'', Malformed), (''b.toml'', Malformed),
               (''c.yaml'', Loads (YDict [(YStr ''name'', YStr ''reviewer''),
                  (YStr ''description'', YStr ''Reviews code''),
                  (YStr ''prompt'', YStr ''You review code.'')])),
               (''d.txt'', Malformed)])
     = ([Found 2, Rule, Verifying ''c.yaml'', Rule,
         Field_ok ''name'' (YStr ''reviewer'') False,
         Field_ok ''description'' (YStr ''Reviews code'') False,
         Field_ok ''prompt'' (YStr ''You review code.'') False, Config_valid,
         Rule, Verifying ''a.yml'', Rule], Some (Raised YAMLError))"
proof -
  let ?good = "(''c.yaml'', Loads (YDict [(YStr ''name'', YStr ''reviewer''),
                  (YStr ''description'', YStr ''Reviews code''),
                  (YStr ''prompt'', YStr ''You review code.'')]))"
  let ?dir = "[(''a.yml'', Malformed), (''b.toml'', Malformed), ?good, (''d.txt'', Malformed)]"
  have toml: "suffix ''.toml'' ''b.toml''"
    by (simp add: suffix_to_prefix)
  have all: "\<forall>f \<in> set [(''b.toml'', Malformed)]. suffix ''.toml'' (fst f)"
    by (simp add: suffix_to_prefix)
  have files: "yaml_files ?dir = [] @ ?good # [(''a.yml'', Malformed)]"
    by (simp add: yaml_files_def suffix_to_prefix)
  have returns: "\<forall>g \<in> set [?good]. \<exists>b. snd (verify_yaml_config (\<lambda>v. 0) g) = Some (Returned b)"
    by (auto simp: main_defs validate_defs)
  have files2: "yaml_files ?dir = [?good] @ (''a.yml'', Malformed) # []"
    by (simp add: yaml_files_def suffix_to_prefix)
  note in_dir = yaml_files_extensions [where entries = ?dir and path = "''b.toml''"
      and src = Malformed and w = "\<lambda>v. 0" and pre = "[?good]"
      and reached = "(''a.yml'', Malformed)" and post = "[]"]
  note in_toml = yaml_files_extensions [where entries = "[(''b.toml'', Malformed)]"
      and w = "\<lambda>v. 0"]
  from in_dir toml
  have hidden: "(''b.toml'', Malformed) \<notin> set (yaml_files ?dir)"
    by blast
  from in_toml all
  have none: "main (\<lambda>v. 0) (Some [(''b.toml'', Malformed)]) = ([No_yaml_files], Some (Returned ()))"
    unfolding ret_def by blast
  from in_dir files2 returns
  obtain rest where log: "fst (main (\<lambda>v. 0) (Some ?dir))
     = Found (length (yaml_files ?dir))
       # concat (map (\<lambda>g. fst (verify_yaml_config (\<lambda>v. 0) g)) [?good])
       @ fst (verify_yaml_config (\<lambda>v. 0) (''a.yml'', Malformed)) @ rest"
    by blast
  have whole: "main (\<lambda>v. 0) (Some ?dir)
     = ([Found 2, Rule, Verifying ''c.yaml'', Rule,
         Field_ok ''name'' (YStr ''reviewer'') False,
         Field_ok ''description'' (YStr ''Reviews code'') False,
         Field_ok ''prompt'' (YStr ''You review code.'') False, Config_valid,
         Rule, Verifying ''a.yml'', Rule], Some (Raised YAMLError))"
    using log by (simp add: main_defs validate_defs suffix_to_prefix)
  from files hidden none whole show ?thesis
    by blast
qed

text \<open>A valid agent in a \<open>.toml\<close> file is not discovered.\<close>

theorem toml_not_discovered_counterexample:
  "yaml_files [(''reviewer.toml'', Loads (YDict [(YStr ''name'', YStr ''reviewer''),
                     (YStr ''description'', YStr ''Reviews code''),
                     (YStr ''prompt'', YStr ''You review code.'')]))] = []
   \<and> main (\<lambda>v. 0) (Some [(''reviewer.toml'', Loads (YDict [(YStr ''name'', YStr ''reviewer''),
                     (YStr ''description'', YStr ''Reviews code''),
                     (YStr ''prompt'', YStr ''You review code.'')]))])
     = ([No_yaml_files], Some (Returned ()))"
  by (simp add: main_defs validate_defs suffix_to_prefix)

section \<open>Properties of the scope resolver\<close>

lemma insert_scope_append:
  "insert_scope scope (xs @ ys) merged = insert_scope scope ys (insert_scope scope xs merged)"
proof (induction xs arbitrary: merged)
  case Nil
  show ?case by simp
next
  case (Cons f xs)
  obtain path l where f: "f = (path, l)"
    by (cases f)
  show ?case
    unfolding f by (cases l) (simp_all only: append_Cons insert_scope.simps Cons.IH)
qed

lemma insert_scope_other:
  assumes "\<forall>f \<in> set files. \<forall>doc. snd f = Valid doc \<longrightarrow> agent_name doc \<noteq> n"
  shows "insert_scope scope files merged n = merged n"
  using assms
proof (induction files arbitrary: merged)
  case Nil
  show ?case by simp
next
  case (Cons f files)
  obtain path l where f: "f = (path, l)"
    by (cases f)
  from Cons.prems have rest: "\<forall>f \<in> set files. \<forall>doc. snd f = Valid doc \<longrightarrow> agent_name doc \<noteq> n"
    by simp
  show ?case
  proof (cases l)
    case (Valid doc)
    with Cons.prems f have "agent_name doc \<noteq> n"
      by simp
    then show ?thesis
      unfolding f Valid insert_scope.simps Cons.IH [OF rest] by simp
  next
    case (Failed reason)
    show ?thesis
      unfolding f Failed insert_scope.simps by (rule Cons.IH [OF rest])
  qed
qed

text \<open>
  C2 (on the resolver modelled from the spec). A global file and a project file hold valid
  documents of the same \<open>name\<close>, and no other project file has that name. Then the merged
  mapping has, under that name, the document of the project file, whole, with origin
  \<open>project\<close>; being a mapping, it has no second entry for the name.
\<close>

theorem project_overrides_global:
  assumes "(gpath, Valid g) \<in> set global_files"
    and "project_files = pre @ (ppath, Valid p) # post"
    and "agent_name g = agent_name p"
    and "\<forall>f \<in> set pre \<union> set post. \<forall>doc. snd f = Valid doc \<longrightarrow> agent_name doc \<noteq> agent_name p"
  shows "fst (resolve global_files project_files) (agent_name g)
     = Some \<lparr>document = p, origin = Project\<rparr>"
proof -
  from assms(4) have post: "\<forall>f \<in> set post. \<forall>doc. snd f = Valid doc \<longrightarrow> agent_name doc \<noteq> agent_name p"
    by blast
  have "insert_scope Project project_files (insert_scope Global global_files Map.empty) (agent_name p)
      = Some \<lparr>document = p, origin = Project\<rparr>"
    unfolding assms(2) insert_scope_append insert_scope.simps insert_scope_other [OF post]
    by simp
  then show ?thesis
    by (simp add: resolve_def assms(3))
qed

theorem project_overrides_global_witness:
  "fst (resolve
      [(''reviewer.yaml'', Valid \<lparr>agent_name = ''reviewer'', agent_description = ''Reviews code'',
          agent_prompt = ''You review code.'', agent_mode_override = None,
          agent_intelligence = Some Hard, agent_tools = [], agent_parameters = [],
          agent_tags = None, agent_file_patterns = None, agent_metadata = None\<rparr>)]
      ([] @ (''reviewer.toml'', Valid \<lparr>agent_name = ''reviewer'', agent_description = ''Reviews code'',
          agent_prompt = ''You review code.'', agent_mode_override = None,
          agent_intelligence = Some Light, agent_tools = [], agent_parameters = [],
          agent_tags = None, agent_file_patterns = None, agent_metadata = None\<rparr>) # []))
      ''reviewer''
    = Some \<lparr>document = \<lparr>agent_name = ''reviewer'', agent_description = ''Reviews code'',
          agent_prompt = ''You review code.'', agent_mode_override = None,
          agent_intelligence = Some Light, agent_tools = [], agent_parameters = [],
          agent_tags = None, agent_file_patterns = None, agent_metadata = None\<rparr>,
        origin = Project\<rparr>"
proof -
  let ?g = "\<lparr>agent_name = ''reviewer'', agent_description = ''Reviews code'',
          agent_prompt = ''You review code.'', agent_mode_override = None,
          agent_intelligence = Some Hard, agent_tools = [], agent_parameters = [],
          agent_tags = None, agent_file_patterns = None, agent_metadata = None\<rparr>"
  let ?p = "\<lparr>agent_name = ''reviewer'', agent_description = ''Reviews code'',
          agent_prompt = ''You review code.'', agent_mode_override = None,
          agent_intelligence = Some Light, agent_tools = [], agent_parameters = [],
          agent_tags = None, agent_file_patterns = None, agent_metadata = None\<rparr>"
  have a1: "(''reviewer.yaml'', Valid ?g) \<in> set [(''reviewer.yaml'', Valid ?g)]"
    by simp
  have a2: "[] @ (''reviewer.toml'', Valid ?p) # [] = [] @ (''reviewer.toml'', Valid ?p) # []"
    by (rule refl)
  have a3: "agent_name ?g = agent_name ?p"
    by simp
  have a4: "\<forall>f \<in> set ([] :: (string \<times> loaded) list) \<union> set [].
      \<forall>doc. snd f = Valid doc \<longrightarrow> agent_name doc \<noteq> agent_name ?p"
    by simp
  show ?thesis
    using project_overrides_global [OF a1 a2 a3 a4] by simp
qed

end
